(* ===== verification/KW_Prelude.thy ===== *)
theory KW_Prelude
  imports Main "HOL-Library.Word"
begin

unbundle bit_operations_syntax

text \<open>
  Shared vocabulary of the development: the fixed-width integers of the program, the
  \<open>util::Result\<close> values its fallible functions return, the byte views of words that C++ code gets by
  \<open>memcpy\<close> on a little-endian machine, \<open>errno\<close> numbers and the generic lemmas on
  lists, maps and words that the component theories use.
\<close>

section \<open>Machine integers\<close>

type_synonym u8 = "8 word"
type_synonym u16 = "16 word"
type_synonym u32 = "32 word"
type_synonym u64 = "64 word"

named_theorems word_nat \<open>reading arithmetic on words as arithmetic on natural numbers\<close>
named_theorems result_simps \<open>equations and case rules for Result values\<close>

text \<open>\<open>1000000000ULL\<close>, the number of nanoseconds in a second.\<close>

definition ns_per_s :: u64 where
  "ns_per_s = 1000000000"

section \<open>Result values\<close>

text \<open>
  \<open>util::Result<T>\<close> (error type \<open>std::string\<close>) holds either a value or an error text. \<open>value()\<close>
  of a failed result is the default-constructed \<open>T\<close>; every caller in the program tests \<open>is_ok()\<close>
  first, so a failed result has no value here. \<open>Result<void>\<close> is the instance at \<open>unit\<close>.
\<close>

datatype 'a result = Ok 'a | Err string

primrec is_ok :: "'a result \<Rightarrow> bool" where
  "is_ok (Ok x) = True"
| "is_ok (Err e) = False"

primrec the_ok :: "'a result \<Rightarrow> 'a option" where
  "the_ok (Ok x) = Some x"
| "the_ok (Err e) = None"

section \<open>Error numbers\<close>

definition EPERM :: int where "EPERM = 1"
definition ENOENT :: int where "ENOENT = 2"
definition ESRCH :: int where "ESRCH = 3"
definition EACCES :: int where "EACCES = 13"
definition EEXIST :: int where "EEXIST = 17"
definition ENODEV :: int where "ENODEV = 19"
definition ENOTDIR :: int where "ENOTDIR = 20"
definition EISDIR :: int where "EISDIR = 21"
definition EINVAL :: int where "EINVAL = 22"
definition ENOSPC :: int where "ENOSPC = 28"
definition ENOTEMPTY :: int where "ENOTEMPTY = 39"
definition ENOLINK :: int where "ENOLINK = 67"
definition EOPNOTSUPP :: int where "EOPNOTSUPP = 95"

section \<open>Bytes of a word on a little-endian machine\<close>

definition le16 :: "u8 \<Rightarrow> u8 \<Rightarrow> u16" where
  "le16 b0 b1 = ucast b0 OR push_bit 8 (ucast b1)"

definition le32 :: "u8 \<Rightarrow> u8 \<Rightarrow> u8 \<Rightarrow> u8 \<Rightarrow> u32" where
  "le32 b0 b1 b2 b3 =
     ucast b0 OR push_bit 8 (ucast b1) OR push_bit 16 (ucast b2) OR push_bit 24 (ucast b3)"

definition le64 :: "u32 \<Rightarrow> u32 \<Rightarrow> u64" where
  "le64 lo hi = ucast lo OR push_bit 32 (ucast hi)"

definition byte_at :: "nat \<Rightarrow> 'a::len word \<Rightarrow> u8" where
  "byte_at i w = ucast (drop_bit (8 * i) w)"

definition half_at :: "nat \<Rightarrow> u64 \<Rightarrow> u32" where
  "half_at i w = ucast (drop_bit (32 * i) w)"

text \<open>\<open>ntohs\<close>, \<open>htons\<close> and \<open>ntohl\<close> reverse the bytes.\<close>

definition ntohs :: "u16 \<Rightarrow> u16" where
  "ntohs w = le16 (byte_at 1 w) (byte_at 0 w)"

definition ntohl :: "u32 \<Rightarrow> u32" where
  "ntohl w = le32 (byte_at 3 w) (byte_at 2 w) (byte_at 1 w) (byte_at 0 w)"

lemma bit_le16: "bit (le16 b0 b1) n \<longleftrightarrow> (if n < 8 then bit b0 n else bit b1 (n - 8))"
  using bit_imp_le_length[of b0 n] bit_imp_le_length[of b1 "n - 8"]
  by (auto simp: le16_def bit_simps)

lemma bit_le32:
  "bit (le32 b0 b1 b2 b3) n \<longleftrightarrow>
     (if n < 8 then bit b0 n else if n < 16 then bit b1 (n - 8)
      else if n < 24 then bit b2 (n - 16) else bit b3 (n - 24))"
  using bit_imp_le_length[of b0 n] bit_imp_le_length[of b1 "n - 8"]
    bit_imp_le_length[of b2 "n - 16"] bit_imp_le_length[of b3 "n - 24"]
  by (auto simp: le32_def bit_simps)

lemma bit_le64: "bit (le64 lo hi) n \<longleftrightarrow> (if n < 32 then bit lo n else bit hi (n - 32))"
  using bit_imp_le_length[of lo n] bit_imp_le_length[of hi "n - 32"]
  by (auto simp: le64_def bit_simps)

lemma bit_byte_at: "bit (byte_at i w) n \<longleftrightarrow> n < 8 \<and> bit w (8 * i + n)"
  by (auto simp: byte_at_def bit_simps)

lemma bit_half_at: "bit (half_at i w) n \<longleftrightarrow> n < 32 \<and> bit w (32 * i + n)"
  by (auto simp: half_at_def bit_simps)

lemmas byte_bits = bit_le16 bit_le32 bit_le64 bit_byte_at bit_half_at

lemma byte_at_le16 [simp]: "byte_at 0 (le16 a b) = a" "byte_at (Suc 0) (le16 a b) = b"
  by (rule bit_word_eqI; simp add: byte_bits)+

lemma byte_at_le32 [simp]:
  "byte_at 0 (le32 a b c d) = a" "byte_at (Suc 0) (le32 a b c d) = b"
  "byte_at 2 (le32 a b c d) = c" "byte_at 3 (le32 a b c d) = d"
  by (rule bit_word_eqI; simp add: byte_bits)+

lemma half_at_le64 [simp]: "half_at 0 (le64 a b) = a" "half_at (Suc 0) (le64 a b) = b"
  by (rule bit_word_eqI; simp add: byte_bits)+

lemma le16_bytes [simp]: "le16 (byte_at 0 w) (byte_at (Suc 0) w) = w"
  by (rule bit_word_eqI) (auto simp: byte_bits)

lemma le32_bytes [simp]:
  "le32 (byte_at 0 w) (byte_at (Suc 0) w) (byte_at 2 w) (byte_at 3 w) = w"
  by (rule bit_word_eqI) (auto simp: byte_bits)

lemma le64_halves [simp]: "le64 (half_at 0 w) (half_at (Suc 0) w) = w"
  by (rule bit_word_eqI) (auto simp: byte_bits)

lemma le32_inject [simp]:
  "le32 a b c d = le32 a' b' c' d' \<longleftrightarrow> a = a' \<and> b = b' \<and> c = c' \<and> d = d'"
  by (metis byte_at_le32)

section \<open>Bounds of words\<close>

lemma unat_bound [word_nat]:
  "unat (a :: u8) < 256" "unat (b :: u16) < 65536" "unat (c :: u32) < 4294967296"
  "unat (d :: u64) < 18446744073709551616"
  using unsigned_less[of a] unsigned_less[of b] unsigned_less[of c] unsigned_less[of d]
  by (simp_all del: unsigned_less)

lemma unat_sum_list:
  "sum_list (map unat ws) < 2 ^ LENGTH('a) \<Longrightarrow> unat (sum_list ws) = sum_list (map unat ws)"
  for ws :: "'a::len word list"
proof (induction ws)
  case (Cons w ws)
  then have "unat (sum_list ws) = sum_list (map unat ws)" by simp
  with Cons.prems show ?case using unat_add_lem[of w "sum_list ws"] by simp
qed simp

text \<open>A number of seconds fits a 64-bit count of nanoseconds.\<close>

lemma unat_seconds: "unat (ucast (s :: u32) * ns_per_s) = unat s * 10 ^ 9"
proof -
  have "unat (ucast s :: u64) = unat s"
    using unat_bound(3)[of s] by (simp add: unsigned_ucast_eq take_bit_nat_eq_self)
  moreover have "unat s * 10 ^ 9 < 2 ^ 64" using unat_bound(3)[of s] by simp
  ultimately show ?thesis by (simp add: ns_per_s_def unat_word_ariths)
qed

end
