(* ===== verification/KW_Text.thy ===== *)
theory KW_Text
  imports KW_Prelude
begin

text \<open>
  The C and C++ library functions on text that the program calls: \<open>c_str\<close>, \<open>std::to_string\<close> on
  unsigned values, \<open>std::stoul\<close>, \<open>std::stoi\<close> and \<open>std::stoull\<close> (through \<open>strtoul\<close>, \<open>strtol\<close>),
  \<open>std::string::find\<close>, \<open>rfind\<close> and \<open>substr\<close>, \<open>inet_pton\<close> and \<open>inet_ntop\<close> for \<open>AF_INET\<close>.
  A string is a list of bytes (\<open>char\<close>). The lemmas are the round trips between numbers, addresses
  and their decimal texts; the locale \<open>codec\<close> is the interface the component theories instantiate.
\<close>

section \<open>Decimal digits\<close>

definition is_digit :: "char \<Rightarrow> bool" where
  "is_digit c \<longleftrightarrow> 48 \<le> (of_char c :: nat) \<and> (of_char c :: nat) \<le> 57"

definition digit_char :: "nat \<Rightarrow> char" where
  "digit_char d = char_of (48 + d)"

definition digit_val :: "char \<Rightarrow> nat" where
  "digit_val c = of_char c - 48"

text \<open>\<open>std::to_string\<close> of an unsigned value.\<close>

fun dec_of_nat :: "nat \<Rightarrow> string" where
  "dec_of_nat n = (if n < 10 then [digit_char n] else dec_of_nat (n div 10) @ [digit_char (n mod 10)])"

declare dec_of_nat.simps [simp del]

definition nat_of_dec :: "string \<Rightarrow> nat" where
  "nat_of_dec ds = foldl (\<lambda>a c. 10 * a + digit_val c) 0 ds"

abbreviation to_string :: "'a::len word \<Rightarrow> string" where
  "to_string w \<equiv> dec_of_nat (unat w)"

section \<open>strtoul, stoul, stoi\<close>

text \<open>\<open>isspace\<close> in the C locale.\<close>

definition is_space :: "char \<Rightarrow> bool" where
  "is_space c \<longleftrightarrow> c = CHR '' '' \<or> (9 \<le> (of_char c :: nat) \<and> (of_char c :: nat) \<le> 13)"

datatype num_exception = InvalidArgument | OutOfRange

text \<open>
  The prefix \<open>strtol\<close> and \<open>strtoul\<close> convert in base 10: blanks, an optional sign, digits. The result
  is the sign, the digits and the number of bytes up to the end pointer; with no digit there is no
  conversion.
\<close>

definition scan_number :: "string \<Rightarrow> (bool \<times> string \<times> nat) option" where
  "scan_number s =
     (let ws = takeWhile is_space s; r = dropWhile is_space s;
          sg = (case r of c # _ \<Rightarrow> c = CHR ''-'' \<or> c = CHR ''+'' | [] \<Rightarrow> False);
          neg = (case r of c # _ \<Rightarrow> c = CHR ''-'' | [] \<Rightarrow> False);
          ds = takeWhile is_digit (if sg then tl r else r)
      in if ds = [] then None
         else Some (neg, ds, length ws + (if sg then 1 else 0) + length ds))"

text \<open>
  \<open>std::stoul(s, &pos, 10)\<close> and \<open>std::stoull\<close> with a 64-bit \<open>unsigned long\<close>: the digits must fit
  64 bits, and a minus sign negates the value modulo \<open>2 ^ 64\<close>.
\<close>

definition stoul :: "string \<Rightarrow> num_exception + (nat \<times> nat)" where
  "stoul s =
     (case scan_number s of
        None \<Rightarrow> Inl InvalidArgument
      | Some (neg, ds, pos) \<Rightarrow>
          (let v = nat_of_dec ds in
           if 2 ^ 64 \<le> v then Inl OutOfRange
           else Inr (if neg then (2 ^ 64 - v) mod 2 ^ 64 else v, pos)))"

text \<open>\<open>std::stoi(s, &pos)\<close>: \<open>strtol\<close>, then the check that the value fits an \<open>int\<close>.\<close>

definition stoi :: "string \<Rightarrow> num_exception + (int \<times> nat)" where
  "stoi s =
     (case scan_number s of
        None \<Rightarrow> Inl InvalidArgument
      | Some (neg, ds, pos) \<Rightarrow>
          (let v = (if neg then - int (nat_of_dec ds) else int (nat_of_dec ds)) in
           if v < - (2 ^ 31) \<or> 2 ^ 31 \<le> v then Inl OutOfRange else Inr (v, pos)))"

section \<open>std::string and C strings\<close>

definition c_str :: "string \<Rightarrow> string" where
  "c_str s = takeWhile (\<lambda>c. c \<noteq> CHR 0x00) s"

text \<open>\<open>s.find(c)\<close>, \<open>s.rfind(c)\<close>; \<open>npos\<close> is \<open>None\<close>.\<close>

fun find_char :: "char \<Rightarrow> string \<Rightarrow> nat option" where
  "find_char c [] = None"
| "find_char c (x # xs) = (if x = c then Some 0 else map_option Suc (find_char c xs))"

fun rfind_char :: "char \<Rightarrow> string \<Rightarrow> nat option" where
  "rfind_char c [] = None"
| "rfind_char c (x # xs) =
     (case rfind_char c xs of Some i \<Rightarrow> Some (Suc i) | None \<Rightarrow> if x = c then Some 0 else None)"

fun split_on :: "char \<Rightarrow> string \<Rightarrow> string list" where
  "split_on c [] = [[]]"
| "split_on c (x # xs) =
     (if x = c then [] # split_on c xs else (x # hd (split_on c xs)) # tl (split_on c xs))"

section \<open>IPv4 addresses as text\<close>

text \<open>
  \<open>inet_pton(AF_INET, ...)\<close>: four decimal numbers of at most 255 joined by dots, without leading
  zeros (the check of the GNU C library); the address is in network byte order, so the first number
  is the byte at the lowest address and the least significant byte of the \<open>uint32_t\<close>.
\<close>

definition octet_ok :: "string \<Rightarrow> bool" where
  "octet_ok s \<longleftrightarrow> s \<noteq> [] \<and> list_all is_digit s \<and> nat_of_dec s \<le> 255
     \<and> (hd s = CHR ''0'' \<longrightarrow> length s = 1)"

definition octet :: "string \<Rightarrow> u8" where
  "octet s = of_nat (nat_of_dec s)"

definition inet_pton :: "string \<Rightarrow> u32 option" where
  "inet_pton s =
     (case split_on CHR ''.'' s of
        [a, b, c, d] \<Rightarrow>
          (if octet_ok a \<and> octet_ok b \<and> octet_ok c \<and> octet_ok d
           then Some (le32 (octet a) (octet b) (octet c) (octet d)) else None)
      | _ \<Rightarrow> None)"

text \<open>\<open>inet_ntop(AF_INET, ...)\<close> with a buffer of \<open>INET_ADDRSTRLEN\<close> bytes, which always suffices.\<close>

definition inet_ntop :: "u32 \<Rightarrow> string" where
  "inet_ntop a =
     to_string (byte_at 0 a) @ ''.'' @ to_string (byte_at 1 a) @ ''.'' @
     to_string (byte_at 2 a) @ ''.'' @ to_string (byte_at 3 a)"

section \<open>Facts on digits and decimal texts\<close>

lemma digit_char_digit [simp]: "d < 10 \<Longrightarrow> is_digit (digit_char d)"
  by (simp add: is_digit_def digit_char_def)

lemma digit_val_char [simp]: "d < 10 \<Longrightarrow> digit_val (digit_char d) = d"
  by (simp add: digit_val_def digit_char_def)

lemma digit_val_less [simp]: "is_digit c \<Longrightarrow> digit_val c < 10"
  by (auto simp: is_digit_def digit_val_def)

lemma digit_char_val [simp]: "is_digit c \<Longrightarrow> digit_char (digit_val c) = c"
  by (simp add: is_digit_def digit_val_def digit_char_def)

lemma digit_char_zero: "d < 10 \<Longrightarrow> digit_char d = CHR ''0'' \<longleftrightarrow> d = 0"
proof
  assume "d < 10" and "digit_char d = CHR ''0''"
  then have "digit_val (digit_char d) = digit_val CHR ''0''" by simp
  with \<open>d < 10\<close> show "d = 0" by (simp add: digit_val_def digit_char_def)
next
  assume "d = 0"
  moreover have "digit_char 0 = CHR ''0''" by code_simp
  ultimately show "digit_char d = CHR ''0''" by simp
qed

lemma digit_val_zero: "is_digit c \<Longrightarrow> digit_val c = 0 \<longleftrightarrow> c = CHR ''0''"
  using digit_char_zero[of "digit_val c"] by simp

lemma not_digit_consts [simp]:
  "\<not> is_digit CHR ''.''" "\<not> is_digit CHR ''/''" "\<not> is_digit CHR '':''" "\<not> is_digit CHR '' ''"
  "\<not> is_digit CHR ''-''" "\<not> is_digit CHR ''+''" "\<not> is_digit CHR '',''" "\<not> is_digit CHR 0x0A"
  "\<not> is_digit CHR 0x00" "\<not> is_digit CHR 0x22" "\<not> is_digit CHR ''}''" "\<not> is_digit CHR ''s''"
  "\<not> is_digit CHR ''p''"
  by (simp_all add: is_digit_def)

lemma digit_not_space [simp]: "is_digit c \<Longrightarrow> \<not> is_space c"
  by (auto simp: is_digit_def is_space_def)

lemma nat_of_dec_Nil [simp]: "nat_of_dec [] = 0"
  by (simp add: nat_of_dec_def)

lemma nat_of_dec_snoc [simp]: "nat_of_dec (ds @ [c]) = 10 * nat_of_dec ds + digit_val c"
  by (simp add: nat_of_dec_def)

lemma dec_of_nat_ne [simp]: "dec_of_nat n \<noteq> []"
  by (subst dec_of_nat.simps) simp

lemma dec_of_nat_digits [simp]: "list_all is_digit (dec_of_nat n)"
proof (induction n rule: dec_of_nat.induct)
  case (1 n)
  then show ?case by (subst dec_of_nat.simps) simp
qed

lemma dec_of_nat_digit: "c \<in> set (dec_of_nat n) \<Longrightarrow> is_digit c"
  using dec_of_nat_digits by (simp add: list_all_iff)

lemma nat_of_dec_of_nat [simp]: "nat_of_dec (dec_of_nat n) = n"
proof (induction n rule: dec_of_nat.induct)
  case (1 n)
  show ?case
  proof (cases "n < 10")
    case True
    then show ?thesis by (subst dec_of_nat.simps) (simp add: nat_of_dec_def)
  next
    case False
    with 1 show ?thesis by (subst dec_of_nat.simps) simp
  qed
qed

lemma dec_of_nat_inject [simp]: "dec_of_nat m = dec_of_nat n \<longleftrightarrow> m = n"
  by (metis nat_of_dec_of_nat)

text \<open>A decimal text has no leading zero unless it is the digit 0 alone.\<close>

definition canonical :: "string \<Rightarrow> bool" where
  "canonical s \<longleftrightarrow> s \<noteq> [] \<and> list_all is_digit s \<and> (hd s = CHR ''0'' \<longrightarrow> length s = 1)"

lemma dec_of_nat_hd_zero: "hd (dec_of_nat n) = CHR ''0'' \<Longrightarrow> n = 0"
proof (induction n rule: dec_of_nat.induct)
  case (1 n)
  show ?case
  proof (cases "n < 10")
    case True
    with "1.prems" show ?thesis by (subst (asm) dec_of_nat.simps) (simp add: digit_char_zero)
  next
    case False
    with "1.prems" have "hd (dec_of_nat (n div 10)) = CHR ''0''"
      by (subst (asm) dec_of_nat.simps) simp
    with "1.IH" False have "n div 10 = 0" by blast
    with False show ?thesis by simp
  qed
qed

lemma canonical_dec_of_nat [simp]: "canonical (dec_of_nat n)"
  using dec_of_nat_hd_zero[of n] by (auto simp: canonical_def dec_of_nat.simps[of 0])

lemma nat_of_dec_pos:
  "s \<noteq> [] \<Longrightarrow> list_all is_digit s \<Longrightarrow> hd s \<noteq> CHR ''0'' \<Longrightarrow> 0 < nat_of_dec s"
proof (induction s rule: rev_induct)
  case (snoc c s)
  then show ?case
    using digit_val_zero[of c] by (cases "s = []") (auto simp: nat_of_dec_def)
qed simp

lemma dec_of_nat_of_dec: "canonical s \<Longrightarrow> dec_of_nat (nat_of_dec s) = s"
proof (induction s rule: rev_induct)
  case Nil
  then show ?case by (simp add: canonical_def)
next
  case (snoc c s)
  have c: "is_digit c" using snoc.prems by (simp add: canonical_def)
  show ?case
  proof (cases "s = []")
    case True
    with c show ?thesis by (simp add: dec_of_nat.simps nat_of_dec_def)
  next
    case False
    with snoc.prems have "canonical s" "0 < nat_of_dec s"
      using nat_of_dec_pos[of s] by (auto simp: canonical_def)
    with c show ?thesis using snoc.IH by (subst dec_of_nat.simps) simp
  qed
qed

section \<open>Reading what was printed\<close>

definition stops :: "string \<Rightarrow> bool" where
  "stops rest \<longleftrightarrow> rest = [] \<or> \<not> is_digit (hd rest)"

lemma stops_simps [simp]: "stops []" "stops (c # cs) \<longleftrightarrow> \<not> is_digit c"
  by (simp_all add: stops_def)

lemma takeWhile_digits:
  "list_all is_digit ds \<Longrightarrow> stops rest \<Longrightarrow> takeWhile is_digit (ds @ rest) = ds"
  by (induction ds) (cases rest; auto)+

lemma dec_of_nat_unique:
  assumes "dec_of_nat m @ xs = dec_of_nat n @ ys" "stops xs" "stops ys"
  shows "m = n \<and> xs = ys"
proof -
  have "dec_of_nat m = dec_of_nat n"
    using assms takeWhile_digits[of "dec_of_nat m" xs] takeWhile_digits[of "dec_of_nat n" ys] by simp
  with assms(1) show ?thesis by simp
qed

lemma scan_digits:
  assumes "list_all is_digit ds" "ds \<noteq> []" "stops rest"
  shows "scan_number (ds @ rest) = Some (False, ds, length ds)"
proof -
  obtain d es where ds: "ds = d # es" using assms(2) by (cases ds) auto
  with assms(1) have d: "is_digit d" by simp
  then have "\<not> is_space d" "d \<noteq> CHR ''-''" "d \<noteq> CHR ''+''" by auto
  moreover have "takeWhile is_digit (es @ rest) = es"
    using assms ds by (intro takeWhile_digits) auto
  ultimately show ?thesis using d ds by (simp add: scan_number_def)
qed

lemma scan_blank:
  "is_space c \<Longrightarrow> scan_number (c # s) = map_option (\<lambda>(neg, ds, pos). (neg, ds, Suc pos)) (scan_number s)"
  by (simp add: scan_number_def Let_def)

lemma scan_dec_of_nat [simp]:
  "scan_number (dec_of_nat n) = Some (False, dec_of_nat n, length (dec_of_nat n))"
  using scan_digits[of "dec_of_nat n" "[]"] by simp

lemma stoul_dec_of_nat [simp]:
  "n < 2 ^ 64 \<Longrightarrow> stoul (dec_of_nat n) = Inr (n, length (dec_of_nat n))"
  by (simp add: stoul_def)

lemma stoi_dec_of_nat [simp]:
  "n < 2 ^ 31 \<Longrightarrow> stoi (dec_of_nat n) = Inr (int n, length (dec_of_nat n))"
  by (simp add: stoi_def)

lemma c_str_idem [simp]: "c_str (c_str s) = c_str s"
  by (auto simp: c_str_def takeWhile_eq_all_conv dest: set_takeWhileD)

lemma c_str_no_nul: "CHR 0x00 \<notin> set s \<Longrightarrow> c_str s = s"
  by (auto simp: c_str_def takeWhile_eq_all_conv)

lemma nul_not_digit: "list_all is_digit ds \<Longrightarrow> CHR 0x00 \<notin> set ds"
  by (auto simp: list_all_iff)

lemma find_char_append [simp]:
  "c \<notin> set s \<Longrightarrow> find_char c (s @ t) = map_option (\<lambda>i. length s + i) (find_char c t)"
  by (induction s) (auto simp: map_option_case split: option.splits)

lemma find_char_None: "find_char c s = None \<longleftrightarrow> c \<notin> set s"
  by (induction s) auto

lemma find_char_Some:
  "find_char c s = Some i \<Longrightarrow> i < length s \<and> s ! i = c \<and> c \<notin> set (take i s)"
  by (induction s arbitrary: i) (auto split: if_splits)

lemma find_char_split: "find_char c s = Some i \<Longrightarrow> s = take i s @ c # drop (Suc i) s"
  using find_char_Some[of c s i] id_take_nth_drop[of i s] by simp

lemma find_char_takeWhile: "find_char c s = Some i \<Longrightarrow> takeWhile (\<lambda>x. x \<noteq> c) s = take i s"
  by (induction s arbitrary: i) (auto split: if_splits)

section \<open>Splitting at dots\<close>

lemma split_on_ne [simp]: "split_on c s \<noteq> []"
  by (cases s) auto

lemma split_on_none: "c \<notin> set s \<Longrightarrow> split_on c s = [s]"
  by (induction s) auto

lemma split_on_append: "c \<notin> set s \<Longrightarrow> split_on c (s @ c # t) = s # split_on c t"
  by (induction s) auto

lemma split_on_join: "split_on c s = x # xs \<Longrightarrow> s = x @ concat (map ((#) c) xs)"
proof (induction s arbitrary: x xs)
  case Nil
  then show ?case by simp
next
  case (Cons a s)
  obtain y ys where y: "split_on c s = y # ys" by (cases "split_on c s") auto
  from Cons.prems y have "(x, xs) = (if a = c then ([], y # ys) else (a # y, ys))"
    by (auto split: if_splits)
  with Cons.IH[OF y] show ?case by (auto split: if_splits)
qed

lemma dot_not_dec [simp]: "CHR ''.'' \<notin> set (dec_of_nat n)"
  using dec_of_nat_digit by fastforce

lemma octet_canonical: "octet_ok s \<longleftrightarrow> canonical s \<and> nat_of_dec s \<le> 255"
  by (auto simp: octet_ok_def canonical_def)

lemma octet_ok_dec [simp]: "octet_ok (to_string (b :: u8))"
  using unat_bound(1)[of b] by (simp add: octet_canonical)

lemma octet_dec [simp]: "octet (to_string b) = b"
  by (simp add: octet_def)

lemma dec_octet: "octet_ok s \<Longrightarrow> to_string (octet s) = s"
  by (simp add: octet_canonical octet_def unat_of_nat dec_of_nat_of_dec)

lemma inet_pton_ntop [simp]: "inet_pton (inet_ntop a) = Some a"
  by (simp add: inet_pton_def inet_ntop_def split_on_append split_on_none)

lemma inet_ntop_pton:
  assumes "inet_pton s = Some a"
  shows "inet_ntop a = s"
proof -
  from assms obtain w x y z where sp: "split_on CHR ''.'' s = [w, x, y, z]"
    and ok: "octet_ok w" "octet_ok x" "octet_ok y" "octet_ok z"
    and a: "a = le32 (octet w) (octet x) (octet y) (octet z)"
    by (auto simp: inet_pton_def split: list.splits if_splits)
  then show ?thesis using split_on_join[OF sp] by (simp add: inet_ntop_def dec_octet)
qed

lemma inet_ntop_chars: "c \<in> set (inet_ntop a) \<Longrightarrow> is_digit c \<or> c = CHR ''.''"
  by (auto simp: inet_ntop_def dest: dec_of_nat_digit)

lemma inet_ntop_ne [simp]: "inet_ntop a \<noteq> []"
  by (simp add: inet_ntop_def)

lemma inet_ntop_inject [simp]: "inet_ntop a = inet_ntop b \<longleftrightarrow> a = b"
  by (metis inet_pton_ntop option.inject)

section \<open>The interface of a printer and its parser\<close>

text \<open>
  \<open>codec\<close>: on the values \<open>valid\<close> admits, what \<open>enc\<close> writes \<open>dec\<close> reads back. \<open>canonical_codec\<close> adds
  that the parser accepts nothing else, up to the normalisation \<open>norm\<close> of its input.
\<close>

locale codec =
  fixes enc :: "'a \<Rightarrow> 's" and dec :: "'s \<Rightarrow> 'a result" and valid :: "'a \<Rightarrow> bool"
  assumes dec_enc: "valid x \<Longrightarrow> dec (enc x) = Ok x"
begin

lemma enc_inj: "inj_on enc {x. valid x}"
  by (rule inj_onI) (metis dec_enc mem_Collect_eq result.inject(1))

lemma enc_accepted: "valid x \<Longrightarrow> is_ok (dec (enc x))"
  by (simp add: dec_enc)

end

locale canonical_codec = codec +
  fixes norm :: "'s \<Rightarrow> 's"
  assumes enc_dec: "dec s = Ok x \<Longrightarrow> valid x \<and> enc x = norm s"
    and dec_norm: "dec (norm s) = dec s"
begin

lemma accepted_iff: "dec s = Ok x \<longleftrightarrow> valid x \<and> norm s = enc x"
  using enc_dec[of s x] dec_norm[of s] dec_enc[of x] by auto

lemma same_value_same_text: "dec s = Ok x \<Longrightarrow> dec t = Ok x \<Longrightarrow> norm s = norm t"
  by (metis enc_dec)

end

end
