(* ===== verification/KW_Ipv4.thy ===== *)
theory KW_Ipv4
  imports KW_Text
begin

text \<open>
  \<open>src/util/ipv4.cpp\<close>: IPv4 addresses and CIDR prefixes as text. \<open>ipv4_parse\<close>, \<open>parse_cidr\<close> and
  \<open>ipv4_format\<close> are \<open>util::ipv4::parse\<close>, \<open>parse_cidr\<close> and \<open>format\<close>. An address is the \<open>uint32_t\<close> in
  network byte order, as the program keeps it everywhere. The blacklist prefix test \<open>lpm_match\<close>
  (what the LPM trie of the kernel documents) is stated here since every component that touches the
  blacklist speaks about it.
\<close>

section \<open>Parsing and formatting\<close>

definition ipv4_parse :: "string \<Rightarrow> u32 result" where
  "ipv4_parse ip =
     (case inet_pton (c_str ip) of
        Some addr \<Rightarrow> Ok addr
      | None \<Rightarrow> Err ''Invalid IPv4 address format'')"

definition parse_cidr :: "string \<Rightarrow> (u32 \<times> u8) result" where
  "parse_cidr cidr =
     (case find_char CHR ''/'' cidr of
        None \<Rightarrow>
          (case ipv4_parse cidr of
             Ok a \<Rightarrow> Ok (a, 32)
           | Err _ \<Rightarrow> Err ''Invalid CIDR format'')
      | Some slash_pos \<Rightarrow>
          (let ip_part = take slash_pos cidr; prefix_part = drop (slash_pos + 1) cidr in
           case ipv4_parse ip_part of
             Err _ \<Rightarrow> Err ''Invalid IP in CIDR''
           | Ok a \<Rightarrow>
               (case stoi prefix_part of
                  Inl _ \<Rightarrow> Err ''Invalid prefix in CIDR''
                | Inr (prefix, pos) \<Rightarrow>
                    (if pos \<noteq> length prefix_part then Err ''Invalid prefix in CIDR''
                     else if prefix < 0 \<or> prefix > 32 then Err ''Prefix out of range''
                     else Ok (a, word_of_int prefix)))))"

definition ipv4_format :: "u32 \<Rightarrow> string" where
  "ipv4_format ip = inet_ntop ip"

text \<open>The \<open>address/length\<close> text of a blacklist entry, as \<open>cmd_list\<close> and the firewall view print it.\<close>

definition cidr_text :: "u32 \<times> u8 \<Rightarrow> string" where
  "cidr_text k = ipv4_format (fst k) @ ''/'' @ to_string (snd k)"

section \<open>Prefix matching\<close>

text \<open>
  Bit \<open>i\<close> of an address counted from the first bit on the wire: bit \<open>7 - i mod 8\<close> of byte \<open>i div 8\<close>.
\<close>

definition net_bit :: "u32 \<Rightarrow> nat \<Rightarrow> bool" where
  "net_bit a i = bit (byte_at (i div 8) a) (7 - i mod 8)"

definition lpm_match :: "nat \<Rightarrow> u32 \<Rightarrow> u32 \<Rightarrow> bool" where
  "lpm_match plen p a \<longleftrightarrow> list_all (\<lambda>i. net_bit p i = net_bit a i) [0..<plen]"

section \<open>Facts\<close>

lemma c_str_format [simp]: "c_str (ipv4_format a) = ipv4_format a"
  using inet_ntop_chars[of "CHR 0x00" a] by (auto simp: ipv4_format_def intro: c_str_no_nul)

lemma ipv4_parse_format [simp]: "ipv4_parse (ipv4_format a) = Ok a"
  using c_str_format[of a] by (simp add: ipv4_parse_def ipv4_format_def)

lemma ipv4_format_parse: "ipv4_parse s = Ok a \<Longrightarrow> ipv4_format a = c_str s"
  by (auto simp: ipv4_parse_def ipv4_format_def inet_ntop_pton split: option.splits)

interpretation ipv4: canonical_codec ipv4_format ipv4_parse "\<lambda>_. True" c_str
  by unfold_locales (auto simp: ipv4_format_parse, simp add: ipv4_parse_def)

lemma slash_not_format [simp]: "CHR ''/'' \<notin> set (ipv4_format a)"
  using inet_ntop_chars by (fastforce simp: ipv4_format_def)

lemma parse_cidr_plain [simp]: "parse_cidr (ipv4_format a) = Ok (a, 32)"
  using slash_not_format[of a] by (simp add: parse_cidr_def find_char_None[THEN iffD2])

lemma stoi_prefix_u8:
  "stoi (to_string (p :: u8)) = Inr (int (unat p), length (to_string p))"
  using unat_bound(1)[of p] by (intro stoi_dec_of_nat) simp

lemma parse_cidr_text: "unat (snd k) \<le> 32 \<Longrightarrow> parse_cidr (cidr_text k) = Ok k"
proof (cases k)
  case (Pair a p)
  assume "unat (snd k) \<le> 32"
  then have "int (unat p) \<le> 32" using Pair by (simp only: snd_conv)
  moreover have "word_of_int (int (unat p)) = p" by simp
  ultimately show ?thesis using Pair
    by (simp add: parse_cidr_def cidr_text_def stoi_prefix_u8 del: of_nat_unat of_int_of_nat_eq)
qed

interpretation cidr: codec cidr_text parse_cidr "\<lambda>k. unat (snd k) \<le> 32"
  by unfold_locales (rule parse_cidr_text)

lemma word_of_prefix: "0 \<le> p \<Longrightarrow> p \<le> 32 \<Longrightarrow> unat (word_of_int p :: u8) = nat p"
  by (simp add: unsigned_of_int take_bit_int_eq_self)

lemma parse_cidr_cases:
  assumes "parse_cidr s = Ok k"
  obtains (plain) "find_char CHR ''/'' s = None" "ipv4_parse s = Ok (fst k)" "snd k = 32"
  | (prefix) i p where "find_char CHR ''/'' s = Some i" "ipv4_parse (take i s) = Ok (fst k)"
      "stoi (drop (Suc i) s) = Inr (p, length (drop (Suc i) s))" "0 \<le> p" "p \<le> 32"
      "snd k = word_of_int p"
  using assms by (auto simp: parse_cidr_def Let_def split: option.splits result.splits sum.splits if_splits)

lemma parse_cidr_range: "parse_cidr s = Ok k \<Longrightarrow> unat (snd k) \<le> 32"
  by (erule parse_cidr_cases) (simp_all add: word_of_prefix)

lemma parse_cidr_address:
  assumes "parse_cidr s = Ok k"
  shows "ipv4_format (fst k) = c_str (takeWhile (\<lambda>c. c \<noteq> CHR ''/'') s)"
  using assms
proof (cases rule: parse_cidr_cases)
  case plain
  then have "takeWhile (\<lambda>c. c \<noteq> CHR ''/'') s = s"
    by (auto simp: find_char_None takeWhile_eq_all_conv)
  with ipv4_format_parse[OF plain(2)] show ?thesis by metis
next
  case (prefix i p)
  then show ?thesis using ipv4_format_parse[OF prefix(2)] find_char_takeWhile[OF prefix(1)] by simp
qed

lemma lpm_match_refl [simp]: "lpm_match n a a"
  by (simp add: lpm_match_def list_all_iff)

lemma lpm_match_0 [simp]: "lpm_match 0 p a"
  by (simp add: lpm_match_def)

lemma lpm_match_mono: "lpm_match n p a \<Longrightarrow> m \<le> n \<Longrightarrow> lpm_match m p a"
  by (auto simp: lpm_match_def list_all_iff)

lemma lpm_match_sym: "lpm_match n p a \<longleftrightarrow> lpm_match n a p"
  by (auto simp: lpm_match_def list_all_iff)

lemma lpm_match_trans: "lpm_match n p q \<Longrightarrow> lpm_match n q a \<Longrightarrow> lpm_match n p a"
  by (auto simp: lpm_match_def list_all_iff)

lemma net_bit_all: "(\<And>i. i < 32 \<Longrightarrow> net_bit p i = net_bit a i) \<Longrightarrow> p = a"
proof (rule bit_word_eqI)
  fix n assume h: "\<And>i. i < 32 \<Longrightarrow> net_bit p i = net_bit a i" and n: "n < LENGTH(32)"
  define i where "i = 8 * (n div 8) + (7 - n mod 8)"
  define r where "r = 7 - n mod 8"
  have r: "r < 8" "7 - r = n mod 8" by (auto simp: r_def)
  have i: "i < 32" "i div 8 = n div 8" "7 - i mod 8 = n mod 8"
    using n r less_mult_imp_div_less[of n 4 8] by (auto simp: i_def simp flip: r_def)
  then have "net_bit w i = bit w n" for w
    by (simp add: net_bit_def bit_byte_at)
  with h[OF i(1)] show "bit p n = bit a n" by simp
qed

lemma lpm_match_32 [simp]: "lpm_match 32 p a \<longleftrightarrow> p = a"
  using net_bit_all[of p a] by (auto simp: lpm_match_def list_all_iff)

section \<open>Properties\<close>

text \<open>
  Property C30. \<open>parse\<close> accepts a string exactly when, up to a NUL byte, it is the dotted
  quad that \<open>format\<close> prints for the resulting address: every address has one accepted spelling, so
  parsing and formatting are inverse to each other.
\<close>

theorem ipv4_parse_iff: "ipv4_parse s = Ok a \<longleftrightarrow> c_str s = ipv4_format a"
  using ipv4.accepted_iff[of s a] by simp

text \<open>
  Every blacklist key with a prefix length of at most 32 is read back from
  the text the program prints for it, and an address without a slash is read as a \<open>/32\<close>.
\<close>

theorem parse_cidr_complete:
  assumes "unat p \<le> 32"
  shows "parse_cidr (cidr_text (a, p)) = Ok (a, p) \<and> parse_cidr (ipv4_format a) = Ok (a, 32)"
  using cidr.dec_enc[of "(a, p)"] assms by simp

theorem parse_cidr_complete_witness:
  "parse_cidr (cidr_text (0x0100000A, 8)) = Ok (0x0100000A, 8) \<and> parse_cidr (ipv4_format 0x0100000A) = Ok (0x0100000A, 32)"
  by (rule parse_cidr_complete) simp

text \<open>
  Whatever text \<open>parse_cidr\<close> accepts, the prefix length it returns is at
  most 32 and the address is the one whose dotted quad stands before the first slash; so the key is
  one that the LPM trie accepts.
\<close>

theorem parse_cidr_sound:
  assumes "parse_cidr s = Ok (a, p)"
  shows "unat p \<le> 32 \<and> ipv4_format a = c_str (takeWhile (\<lambda>c. c \<noteq> CHR ''/'') s)"
  using parse_cidr_range[OF assms] parse_cidr_address[OF assms] by simp

theorem parse_cidr_sound_witness:
  "ipv4_format 0x0100000A = c_str (takeWhile (\<lambda>c. c \<noteq> CHR ''/'') (cidr_text (0x0100000A, 8)))"
  using parse_cidr_sound[OF parse_cidr_text[of "(0x0100000A, 8)"]] by simp

end
