(* ===== verification/KW_Event.thy ===== *)
theory KW_Event
  imports KW_Ipv4
begin

text \<open>
  \<open>bpf/kwatch_shared.h\<close>, the data shared by the XDP program and user space, and
  \<open>src/core/event_formatter.h\<close>, which reads a ring-buffer record and renders it as text or JSON.
  \<open>event_bytes\<close> is the object representation of a \<open>struct kwatch_event\<close> on a little-endian LP64
  machine: 26 bytes of fields and 6 of tail padding, 32 in all.
\<close>

section \<open>Shared structures\<close>

record kwatch_event =
  ts_ns :: u64
  src_ip :: u32
  dst_ip :: u32
  sport :: u16
  dport :: u16
  protocol :: u8
  tcp_flags :: u8
  ttl :: u8
  action :: u8
  icmp_type :: u8
  icmp_code :: u8

record kwatch_flow_key =
  fk_src_ip :: u32
  fk_dst_ip :: u32
  fk_sport :: u16
  fk_dport :: u16
  fk_protocol :: u8

record kwatch_flow_stats =
  syn_count :: u32
  ack_count :: u32
  first_seen_ns :: u64
  last_seen_ns :: u64

record kwatch_runtime_config =
  cfg_sample_n :: u32
  cfg_syn_window_ns :: u64

definition kwatch_make_runtime_config :: "u32 \<Rightarrow> u32 \<Rightarrow> kwatch_runtime_config" where
  "kwatch_make_runtime_config sample_n syn_window_s =
     \<lparr>cfg_sample_n = sample_n, cfg_syn_window_ns = ucast syn_window_s * ns_per_s\<rparr>"

definition kwatch_should_emit_event :: "u32 \<Rightarrow> u32 \<Rightarrow> bool \<Rightarrow> bool" where
  "kwatch_should_emit_event sample_n random_value is_new =
     (if is_new \<or> sample_n \<le> 1 then True else random_value mod sample_n = 0)"

section \<open>Reading a ring-buffer record\<close>

definition sizeof_kwatch_event :: nat where
  "sizeof_kwatch_event = 32"

definition load16 :: "u8 list \<Rightarrow> nat \<Rightarrow> u16" where
  "load16 bs i = le16 (bs ! i) (bs ! (i + 1))"

definition load32 :: "u8 list \<Rightarrow> nat \<Rightarrow> u32" where
  "load32 bs i = le32 (bs ! i) (bs ! (i + 1)) (bs ! (i + 2)) (bs ! (i + 3))"

definition load64 :: "u8 list \<Rightarrow> nat \<Rightarrow> u64" where
  "load64 bs i = le64 (load32 bs i) (load32 bs (i + 4))"

text \<open>\<open>memcpy(&event, bytes, sizeof(event))\<close>; the caller has checked the length.\<close>

definition copy_event :: "u8 list \<Rightarrow> kwatch_event" where
  "copy_event bs =
     \<lparr>ts_ns = load64 bs 0, src_ip = load32 bs 8, dst_ip = load32 bs 12, sport = load16 bs 16,
      dport = load16 bs 18, protocol = bs ! 20, tcp_flags = bs ! 21, ttl = bs ! 22,
      action = bs ! 23, icmp_type = bs ! 24, icmp_code = bs ! 25\<rparr>"

definition parse_ringbuf_event :: "u8 list \<Rightarrow> kwatch_event result" where
  "parse_ringbuf_event bytes =
     (if length bytes < sizeof_kwatch_event then Err ''event buffer too small''
      else Ok (copy_event bytes))"

section \<open>Rendering\<close>

datatype EventOutputFormat = Text | Json

definition event_proto_name :: "u8 \<Rightarrow> string" where
  "event_proto_name p =
     (if p = 1 then ''ICMP'' else if p = 6 then ''TCP'' else if p = 17 then ''UDP'' else ''OTHER'')"

definition format_tcp_flags :: "u8 \<Rightarrow> string" where
  "format_tcp_flags flags =
     (let out = (if flags AND 0x02 \<noteq> 0 then ''S'' else []) @
                (if flags AND 0x10 \<noteq> 0 then ''A'' else []) @
                (if flags AND 0x08 \<noteq> 0 then ''P'' else []) @
                (if flags AND 0x01 \<noteq> 0 then ''F'' else []) @
                (if flags AND 0x04 \<noteq> 0 then ''R'' else [])
      in if out = [] then ''-'' else out)"

text \<open>A JSON member name between its quotes (byte \<open>0x22\<close>), and the separator before it.\<close>

definition quoted :: "string \<Rightarrow> string" where
  "quoted s = CHR 0x22 # s @ [CHR 0x22]"

definition format_json :: "kwatch_event \<Rightarrow> string \<Rightarrow> string" where
  "format_json event timestamp =
     ''{'' @ quoted ''ts'' @ '':'' @ quoted timestamp @
     '','' @ quoted ''ts_ns'' @ '':'' @ to_string (ts_ns event) @
     '','' @ quoted ''src_ip'' @ '':'' @ quoted (ipv4_format (src_ip event)) @
     '','' @ quoted ''dst_ip'' @ '':'' @ quoted (ipv4_format (dst_ip event)) @
     '','' @ quoted ''sport'' @ '':'' @ to_string (sport event) @
     '','' @ quoted ''dport'' @ '':'' @ to_string (dport event) @
     '','' @ quoted ''protocol'' @ '':'' @ to_string (protocol event) @
     '','' @ quoted ''tcp_flags'' @ '':'' @ to_string (tcp_flags event) @
     '','' @ quoted ''icmp_type'' @ '':'' @ to_string (icmp_type event) @
     '','' @ quoted ''icmp_code'' @ '':'' @ to_string (icmp_code event) @
     '','' @ quoted ''ttl'' @ '':'' @ to_string (ttl event) @
     '','' @ quoted ''action'' @ '':'' @ quoted (if action event = 1 then ''drop'' else ''pass'') @
     ''}''"

definition format_text :: "kwatch_event \<Rightarrow> string \<Rightarrow> string" where
  "format_text event timestamp =
     timestamp @ '' '' @ event_proto_name (protocol event) @ '' '' @
     ipv4_format (src_ip event) @ '':'' @ to_string (sport event) @ '' -> '' @
     ipv4_format (dst_ip event) @ '':'' @ to_string (dport event) @
     '' flags='' @ format_tcp_flags (tcp_flags event) @ '' ttl='' @ to_string (ttl event) @
     (if protocol event = 1
      then '' type='' @ to_string (icmp_type event) @ '' code='' @ to_string (icmp_code event)
      else [])"

definition format_event :: "kwatch_event \<Rightarrow> EventOutputFormat \<Rightarrow> string \<Rightarrow> string" where
  "format_event event fmt timestamp =
     (case fmt of Json \<Rightarrow> format_json event timestamp | Text \<Rightarrow> format_text event timestamp)"

definition parse_and_format_event ::
    "u8 list \<Rightarrow> EventOutputFormat \<Rightarrow> string \<Rightarrow> string result" where
  "parse_and_format_event bytes fmt timestamp =
     (case parse_ringbuf_event bytes of
        Err e \<Rightarrow> Err e
      | Ok event \<Rightarrow> Ok (format_event event fmt timestamp))"

section \<open>The object representation\<close>

definition bytes16 :: "u16 \<Rightarrow> u8 list" where
  "bytes16 w = [byte_at 0 w, byte_at 1 w]"

definition bytes32 :: "u32 \<Rightarrow> u8 list" where
  "bytes32 w = [byte_at 0 w, byte_at 1 w, byte_at 2 w, byte_at 3 w]"

definition bytes64 :: "u64 \<Rightarrow> u8 list" where
  "bytes64 w = bytes32 (half_at 0 w) @ bytes32 (half_at 1 w)"

definition event_bytes :: "kwatch_event \<Rightarrow> u8 list" where
  "event_bytes e =
     bytes64 (ts_ns e) @ bytes32 (src_ip e) @ bytes32 (dst_ip e) @ bytes16 (sport e) @
     bytes16 (dport e) @ [protocol e, tcp_flags e, ttl e, action e, icmp_type e, icmp_code e] @
     replicate 6 0"

lemmas bytes_defs = bytes16_def bytes32_def bytes64_def
lemmas load_defs = load16_def load32_def load64_def

section \<open>Facts on records and sampling\<close>

lemma length_event_bytes [simp]: "length (event_bytes e) = sizeof_kwatch_event"
  by (simp add: event_bytes_def bytes_defs sizeof_kwatch_event_def)

lemma copy_event_bytes [simp]: "copy_event (event_bytes e @ rest) = e"
  by (simp add: copy_event_def event_bytes_def bytes_defs load_defs)

lemma parse_event_bytes: "parse_ringbuf_event (event_bytes e @ rest) = Ok e"
  by (simp add: parse_ringbuf_event_def)

interpretation event_record: codec event_bytes parse_ringbuf_event "\<lambda>_. True"
  using parse_event_bytes[where rest = "[]"] by unfold_locales simp

lemma runtime_config_exact:
  "unat (cfg_syn_window_ns (kwatch_make_runtime_config n s)) = unat s * 1000000000"
  using unat_seconds[of s] by (simp add: kwatch_make_runtime_config_def)

lemma flag_bit:
  "flags AND 0x01 \<noteq> 0 \<longleftrightarrow> bit (flags :: u8) 0" "flags AND 0x02 \<noteq> 0 \<longleftrightarrow> bit flags 1"
  "flags AND 0x04 \<noteq> 0 \<longleftrightarrow> bit flags 2" "flags AND 0x08 \<noteq> 0 \<longleftrightarrow> bit flags 3"
  "flags AND 0x10 \<noteq> 0 \<longleftrightarrow> bit flags 4"
  using and_exp_eq_0_iff_not_bit[of flags 0] and_exp_eq_0_iff_not_bit[of flags 1]
    and_exp_eq_0_iff_not_bit[of flags 2] and_exp_eq_0_iff_not_bit[of flags 3]
    and_exp_eq_0_iff_not_bit[of flags 4] by simp_all

lemma format_tcp_flags_set:
  "CHR ''F'' \<in> set (format_tcp_flags f) \<longleftrightarrow> bit f 0" "CHR ''S'' \<in> set (format_tcp_flags f) \<longleftrightarrow> bit f 1"
  "CHR ''R'' \<in> set (format_tcp_flags f) \<longleftrightarrow> bit f 2" "CHR ''P'' \<in> set (format_tcp_flags f) \<longleftrightarrow> bit f 3"
  "CHR ''A'' \<in> set (format_tcp_flags f) \<longleftrightarrow> bit f 4"
  by (auto simp: format_tcp_flags_def Let_def flag_bit)

lemma low_five_bits: "(f :: u8) AND 0x1F = g AND 0x1F \<longleftrightarrow> (\<forall>n < 5. bit f n = bit g n)"
proof -
  have m: "(0x1F :: u8) = mask 5" by (simp add: mask_eq_exp_minus_1)
  have five: "n < 5 \<Longrightarrow> n < (8 :: nat)" for n by simp
  show ?thesis unfolding m by (simp add: bit_eq_iff bit_simps) (meson five)
qed

lemma format_tcp_flags_determines:
  "format_tcp_flags f = format_tcp_flags g \<longleftrightarrow> f AND 0x1F = g AND 0x1F"
proof
  assume "format_tcp_flags f = format_tcp_flags g"
  then have "bit f 0 = bit g 0" "bit f 1 = bit g 1" "bit f 2 = bit g 2" "bit f 3 = bit g 3"
    "bit f 4 = bit g 4" by (metis format_tcp_flags_set)+
  then show "f AND 0x1F = g AND 0x1F" by (simp add: low_five_bits numeral_eq_Suc less_Suc_eq all_conj_distrib)
next
  assume "f AND 0x1F = g AND 0x1F"
  then have "\<forall>n < 5. bit f n = bit g n" by (simp only: low_five_bits)
  then show "format_tcp_flags f = format_tcp_flags g"
    by (simp add: format_tcp_flags_def flag_bit)
qed

section \<open>The JSON rendering is a flat JSON object\<close>

text \<open>
  A reader for flat JSON objects, the reference for the JSON rendering: members \<open>name:value\<close> where a
  value is a natural number or a string without quotes, backslashes or control characters.
\<close>

datatype jval = JNum nat | JStr string

definition json_plain :: "string \<Rightarrow> bool" where
  "json_plain s \<longleftrightarrow> list_all (\<lambda>c. 32 \<le> (of_char c :: nat) \<and> c \<noteq> CHR 0x22 \<and> c \<noteq> CHR 0x5C) s"

definition json_string :: "string \<Rightarrow> (string \<times> string) option" where
  "json_string s =
     (if s = [] \<or> hd s \<noteq> CHR 0x22 then None
      else (let body = takeWhile (\<lambda>c. c \<noteq> CHR 0x22) (tl s);
                rest = dropWhile (\<lambda>c. c \<noteq> CHR 0x22) (tl s)
            in if rest = [] \<or> \<not> json_plain body then None else Some (body, tl rest)))"

definition json_value :: "string \<Rightarrow> (jval \<times> string) option" where
  "json_value s =
     (let ds = takeWhile is_digit s in
      if ds = [] then map_option (map_prod JStr id) (json_string s)
      else if canonical ds then Some (JNum (nat_of_dec ds), dropWhile is_digit s) else None)"

fun json_members :: "nat \<Rightarrow> string \<Rightarrow> ((string \<times> jval) list \<times> string) option" where
  "json_members 0 s = None"
| "json_members (Suc n) s =
     (case json_string s of
        None \<Rightarrow> None
      | Some (k, s1) \<Rightarrow>
          (if s1 = [] \<or> hd s1 \<noteq> CHR '':'' then None
           else case json_value (tl s1) of
                  None \<Rightarrow> None
                | Some (v, s2) \<Rightarrow>
                    (if s2 \<noteq> [] \<and> hd s2 = CHR '',''
                     then map_option (\<lambda>(ms, r). ((k, v) # ms, r)) (json_members n (tl s2))
                     else Some ([(k, v)], s2))))"

definition json_object :: "string \<Rightarrow> (string \<times> jval) list option" where
  "json_object s =
     (if s = [] \<or> hd s \<noteq> CHR ''{'' then None
      else case json_members (length s) (tl s) of
             Some (ms, r) \<Rightarrow> (if r = ''}'' then Some ms else None)
           | None \<Rightarrow> None)"

definition event_members :: "kwatch_event \<Rightarrow> string \<Rightarrow> (string \<times> jval) list" where
  "event_members e timestamp =
     [(''ts'', JStr timestamp), (''ts_ns'', JNum (unat (ts_ns e))),
      (''src_ip'', JStr (ipv4_format (src_ip e))), (''dst_ip'', JStr (ipv4_format (dst_ip e))),
      (''sport'', JNum (unat (sport e))), (''dport'', JNum (unat (dport e))),
      (''protocol'', JNum (unat (protocol e))), (''tcp_flags'', JNum (unat (tcp_flags e))),
      (''icmp_type'', JNum (unat (icmp_type e))), (''icmp_code'', JNum (unat (icmp_code e))),
      (''ttl'', JNum (unat (ttl e))),
      (''action'', JStr (if action e = 1 then ''drop'' else ''pass''))]"

text \<open>Printing members, to state the reader's round trip by induction.\<close>

fun show_value :: "jval \<Rightarrow> string" where
  "show_value (JNum n) = dec_of_nat n"
| "show_value (JStr s) = quoted s"

fun show_members :: "(string \<times> jval) list \<Rightarrow> string" where
  "show_members [] = []"
| "show_members [(k, v)] = quoted k @ '':'' @ show_value v"
| "show_members ((k, v) # m # ms) = quoted k @ '':'' @ show_value v @ '','' @ show_members (m # ms)"

fun jval_ok :: "jval \<Rightarrow> bool" where
  "jval_ok (JNum n) = True"
| "jval_ok (JStr s) = json_plain s"

lemma json_string_quoted [simp]: "json_plain s \<Longrightarrow> json_string (quoted s @ r) = Some (s, r)"
proof -
  assume p: "json_plain s"
  then have "takeWhile (\<lambda>c. c \<noteq> CHR 0x22) (s @ CHR 0x22 # r) = s"
    "dropWhile (\<lambda>c. c \<noteq> CHR 0x22) (s @ CHR 0x22 # r) = CHR 0x22 # r"
    by (auto simp: json_plain_def list_all_iff takeWhile_append dropWhile_append)
  with p show ?thesis by (simp add: json_string_def quoted_def)
qed

lemma json_value_show: "jval_ok v \<Longrightarrow> stops r \<Longrightarrow> json_value (show_value v @ r) = Some (v, r)"
proof (cases v)
  case (JNum n)
  assume "stops r"
  then have "takeWhile is_digit (dec_of_nat n @ r) = dec_of_nat n" by (simp add: takeWhile_digits)
  moreover from this have "dropWhile is_digit (dec_of_nat n @ r) = r"
    by (metis append_same_eq same_append_eq takeWhile_dropWhile_id)
  ultimately show ?thesis using JNum by (simp add: json_value_def)
next
  case (JStr s)
  assume "jval_ok v"
  moreover have "takeWhile is_digit (quoted s @ r) = []" by (simp add: quoted_def)
  ultimately show ?thesis using JStr by (simp add: json_value_def)
qed

lemma json_members_show:
  "ms \<noteq> [] \<Longrightarrow> list_all (\<lambda>(k, v). json_plain k \<and> jval_ok v) ms \<Longrightarrow> length ms \<le> n \<Longrightarrow>
     json_members n (show_members ms @ ''}'') = Some (ms, ''}'')"
proof (induction ms arbitrary: n rule: show_members.induct)
  case (2 k v)
  then show ?case by (cases n) (auto simp: json_value_show)
next
  case (3 k v m ms)
  then show ?case by (cases n) (auto simp: json_value_show)
qed simp

lemma format_json_members: "format_json e ts = ''{'' @ show_members (event_members e ts) @ ''}''"
  by (simp add: format_json_def event_members_def)

lemma json_plain_addr [simp]: "json_plain (ipv4_format a)"
  using inet_ntop_chars by (fastforce simp: json_plain_def list_all_iff ipv4_format_def is_digit_def)

lemma event_members_ok:
  "json_plain ts \<Longrightarrow> list_all (\<lambda>(k, v). json_plain k \<and> jval_ok v) (event_members e ts)"
  by (simp add: event_members_def) (simp add: json_plain_def)

lemma json_object_event:
  assumes "json_plain ts"
  shows "json_object (format_json e ts) = Some (event_members e ts)"
proof -
  have ne: "event_members e ts \<noteq> []" by (simp add: event_members_def)
  have "length (event_members e ts) \<le> length (format_json e ts)"
    by (simp add: event_members_def format_json_def)
  from json_members_show[OF ne event_members_ok[OF assms] this] show ?thesis
    by (simp add: json_object_def format_json_members)
qed

section \<open>Properties\<close>

text \<open>
  Property C32. A ring-buffer record that starts with the object representation of an
  event is read as that event whatever follows it, and a record is refused exactly when it is shorter
  than the structure.
\<close>

theorem ringbuf_roundtrip:
  "parse_ringbuf_event (event_bytes e @ rest) = Ok e \<and>
   (is_ok (parse_ringbuf_event bs) \<longleftrightarrow> 32 \<le> length bs)"
  by (simp add: parse_event_bytes) (simp add: parse_ringbuf_event_def sizeof_kwatch_event_def)

text \<open>
  Property C33. The JSON line printed for a record is a flat JSON object that a JSON
  reader decodes to the twelve members of the event with their exact values, in order, for every
  timestamp text without quotes, backslashes or control characters.
\<close>

theorem json_line_readable:
  assumes "json_plain timestamp"
  shows "\<exists>line. parse_and_format_event (event_bytes e @ rest) Json timestamp = Ok line \<and>
    json_object line = Some (event_members e timestamp)"
  using json_object_event[OF assms]
  by (simp add: parse_and_format_event_def parse_event_bytes format_event_def)

theorem json_line_readable_witness:
  "\<exists>line. parse_and_format_event (event_bytes (copy_event (replicate 32 6))) Json ''12:00:01.5'' = Ok line \<and>
    json_object line = Some (event_members (copy_event (replicate 32 6)) ''12:00:01.5'')"
  using json_line_readable[of "''12:00:01.5''" "copy_event (replicate 32 6)" "[]"]
  by (simp add: json_plain_def)

text \<open>
  The flags column of the text line tells exactly the five TCP flags FIN,
  SYN, RST, PSH and ACK: two flag bytes print alike if and only if they agree on those five bits.
\<close>

theorem text_flags_exact:
  "format_tcp_flags f = format_tcp_flags g \<longleftrightarrow> (f :: u8) AND 0x1F = g AND 0x1F"
  by (rule format_tcp_flags_determines)

end
