(* ===== verification/KW_Pps.thy ===== *)
theory KW_Pps
  imports KW_Prelude
begin

text \<open>
  \<open>src/core/pps_window.cpp\<close>, the ring of packet rates behind the dashboard, and
  \<open>src/tui/widgets/sparkline.cpp\<close>, which draws it. \<open>size_t\<close> positions and counts are natural
  numbers: they stay below the length of a vector, so no operation on them wraps. Rates are \<open>u64\<close>
  and keep their wrap-around. The locale \<open>sliding_window\<close> is the contract of a bounded history; the
  ring implements it, and so does the event list of \<open>cmd_top\<close> (theory \<open>KW_Top\<close>).
\<close>

section \<open>The contract of a bounded history\<close>

locale sliding_window =
  fixes new :: "nat \<Rightarrow> 'w" and push :: "'w \<Rightarrow> 'a \<Rightarrow> 'w" and view :: "'w \<Rightarrow> 'a list"
    and cap :: "'w \<Rightarrow> nat" and inv :: "'w \<Rightarrow> bool" and sizes :: "nat set"
  assumes inv_new: "n \<in> sizes \<Longrightarrow> inv (new n)"
    and inv_push: "inv w \<Longrightarrow> inv (push w x)"
    and cap_new: "n \<in> sizes \<Longrightarrow> cap (new n) = n"
    and cap_push: "inv w \<Longrightarrow> cap (push w x) = cap w"
    and view_new: "n \<in> sizes \<Longrightarrow> view (new n) = []"
    and view_push: "inv w \<Longrightarrow> view (push w x) = drop (Suc (length (view w)) - cap w) (view w @ [x])"
begin

lemma run_inv: "n \<in> sizes \<Longrightarrow> inv (foldl push (new n) xs)"
  by (induction xs rule: rev_induct) (auto intro: inv_new inv_push)

lemma run_cap: "n \<in> sizes \<Longrightarrow> cap (foldl push (new n) xs) = n"
  by (induction xs rule: rev_induct) (auto simp: cap_new cap_push run_inv)

lemma run_view: "n \<in> sizes \<Longrightarrow> view (foldl push (new n) xs) = drop (length xs - n) xs"
proof (induction xs rule: rev_induct)
  case Nil
  then show ?case by (simp add: view_new)
next
  case (snoc x xs)
  let ?w = "foldl push (new n) xs"
  have "view (push ?w x) = drop (Suc (length (view ?w)) - n) (view ?w @ [x])"
    using snoc.prems by (simp add: view_push run_inv run_cap)
  also have "\<dots> = drop (Suc (length xs) - n) (xs @ [x])"
    using snoc by (cases "n \<le> length xs") (auto simp: Suc_diff_le)
  finally show ?case by simp
qed

lemma run_length: "n \<in> sizes \<Longrightarrow> length (view (foldl push (new n) xs)) \<le> n"
  by (simp add: run_view)

end

section \<open>PpsWindow\<close>

record pps_window =
  window :: "u64 list"
  head :: nat
  count :: nat

definition PpsWindow :: "nat \<Rightarrow> pps_window" where
  "PpsWindow sz = \<lparr>window = replicate sz 0, head = 0, count = 0\<rparr>"

definition pps_push :: "pps_window \<Rightarrow> u64 \<Rightarrow> pps_window" where
  "pps_push w pps =
     (if window w = [] then w
      else w\<lparr>window := (window w)[head w := pps],
             head := (head w + 1) mod length (window w),
             count := (if count w < length (window w) then count w + 1 else count w)\<rparr>)"

definition copy_snapshot :: "pps_window \<Rightarrow> u64 list" where
  "copy_snapshot w =
     (if count w = 0 then []
      else (let start = (if count w < length (window w) then 0 else head w)
            in map (\<lambda>i. window w ! ((start + i) mod length (window w))) [0..<count w]))"

definition pps_latest :: "pps_window \<Rightarrow> u64" where
  "pps_latest w =
     (if count w = 0 \<or> window w = [] then 0
      else (let idx = (if head w = 0 then length (window w) - 1 else head w - 1)
            in window w ! idx))"

definition get_snapshot :: "pps_window \<Rightarrow> u64 list" where
  "get_snapshot w = copy_snapshot w"

definition current_average :: "pps_window \<Rightarrow> u64" where
  "current_average w =
     (if count w = 0 then 0
      else foldl (\<lambda>s i. s + window w ! i) 0 [0..<count w] div of_nat (count w))"

definition pps_inv :: "pps_window \<Rightarrow> bool" where
  "pps_inv w \<longleftrightarrow>
     count w \<le> length (window w) \<and>
     (if count w < length (window w) then head w = count w
      else window w = [] \<or> head w < length (window w)) \<and>
     (window w = [] \<longrightarrow> head w = 0)"

section \<open>Sparkline\<close>

definition bars :: "string list" where
  "bars = ['' '', '' '', [CHR 0xE2, CHR 0x96, CHR 0x82], [CHR 0xE2, CHR 0x96, CHR 0x83],
           [CHR 0xE2, CHR 0x96, CHR 0x84], [CHR 0xE2, CHR 0x96, CHR 0x85],
           [CHR 0xE2, CHR 0x96, CHR 0x86], [CHR 0xE2, CHR 0x96, CHR 0x87],
           [CHR 0xE2, CHR 0x96, CHR 0x88]]"

text \<open>The first loop's maximum, and the bar index of the second loop: \<open>data[i] * 8\<close> wraps at 64 bits and
  the quotient is cast to a 32-bit \<open>int\<close>.\<close>

fun max_from :: "u64 \<Rightarrow> u64 list \<Rightarrow> u64" where
  "max_from m [] = m"
| "max_from m (x # xs) = max_from (if x > m then x else m) xs"

definition bar_index :: "u64 \<Rightarrow> u64 \<Rightarrow> int" where
  "bar_index max_val x =
     (let idx = sint (ucast ((x * 8) div max_val) :: u32) in if idx > 8 then 8 else idx)"

definition render_sparkline :: "u64 list \<Rightarrow> int \<Rightarrow> string" where
  "render_sparkline data width =
     (if data = [] \<or> width \<le> 0 then []
      else (let n = length data;
                start = (if n > nat width then n - nat width else 0);
                shown = drop start data;
                max0 = max_from 0 shown;
                max_val = (if max0 = 0 then 1 else max0)
            in concat (map (\<lambda>x. bars ! nat (bar_index max_val x)) shown)))"

section \<open>The ring refines the bounded history\<close>

lemma pps_inv_new: "pps_inv (PpsWindow n)"
  by (simp add: pps_inv_def PpsWindow_def)

lemma length_pps_push [simp]: "length (window (pps_push w x)) = length (window w)"
  by (simp add: pps_push_def)

lemma pps_inv_push: "pps_inv w \<Longrightarrow> pps_inv (pps_push w x)"
  by (auto simp: pps_inv_def pps_push_def split: if_splits)

lemma copy_snapshot_filling:
  "pps_inv w \<Longrightarrow> count w < length (window w) \<Longrightarrow> copy_snapshot w = take (count w) (window w)"
  by (auto simp: copy_snapshot_def pps_inv_def intro!: nth_equalityI)

lemma mod_once: "h < n \<Longrightarrow> i < n \<Longrightarrow> (h + i) mod n = (if h + i < n then h + i else h + i - n)" for h i n :: nat
  by (simp add: le_mod_geq)

lemma rotate_nth:
  assumes "h < length xs"
  shows "map (\<lambda>i. xs ! ((h + i) mod length xs)) [0..<length xs] = drop h xs @ take h xs"
proof (rule nth_equalityI)
  fix i assume "i < length (map (\<lambda>i. xs ! ((h + i) mod length xs)) [0..<length xs])"
  then have i: "i < length xs" by simp
  with assms show "map (\<lambda>i. xs ! ((h + i) mod length xs)) [0..<length xs] ! i
      = (drop h xs @ take h xs) ! i"
    by (simp only: nth_map_upt nth_append mod_once) (auto simp: add_diff_eq[symmetric] add.commute diff_diff_right)
qed simp

lemma copy_snapshot_full:
  assumes "pps_inv w" "count w = length (window w)"
  shows "copy_snapshot w = drop (head w) (window w) @ take (head w) (window w)"
proof (cases "window w = []")
  case True
  with assms show ?thesis by (simp add: copy_snapshot_def)
next
  case False
  with assms have h: "head w < length (window w)" by (simp add: pps_inv_def)
  with False assms show ?thesis by (simp add: copy_snapshot_def rotate_nth)
qed

lemma pps_push_filling:
  assumes "pps_inv w" "count w < length (window w)"
  shows "window (pps_push w x) = take (count w) (window w) @ x # drop (Suc (count w)) (window w)"
    "count (pps_push w x) = Suc (count w)" "head (pps_push w x) = Suc (count w) mod length (window w)"
  using assms by (auto simp: pps_push_def pps_inv_def upd_conv_take_nth_drop)

lemma pps_push_full:
  assumes "pps_inv w" "count w = length (window w)" "window w \<noteq> []"
  shows "window (pps_push w x) = take (head w) (window w) @ x # drop (Suc (head w)) (window w)"
    "count (pps_push w x) = count w" "head (pps_push w x) = Suc (head w) mod length (window w)"
  using assms by (auto simp: pps_push_def pps_inv_def upd_conv_take_nth_drop)

lemma copy_snapshot_push_filling:
  assumes "pps_inv w" "count w < length (window w)"
  shows "copy_snapshot (pps_push w x) = copy_snapshot w @ [x]"
proof (cases "Suc (count w) = length (window w)")
  case True
  then have "drop (Suc (count w)) (window w) = []" "head (pps_push w x) = 0"
    "count (pps_push w x) = length (window (pps_push w x))"
    using assms by (simp_all add: pps_push_filling)
  with copy_snapshot_full[OF pps_inv_push[OF assms(1)], of x] assms show ?thesis
    by (simp add: copy_snapshot_filling pps_push_filling)
next
  case False
  with assms have "count (pps_push w x) < length (window (pps_push w x))"
    by (simp add: pps_push_filling)
  with copy_snapshot_filling[OF pps_inv_push[OF assms(1)], of x] assms show ?thesis
    by (simp add: copy_snapshot_filling pps_push_filling)
qed

lemma copy_snapshot_push_full:
  assumes "pps_inv w" "count w = length (window w)" "window w \<noteq> []"
  shows "copy_snapshot (pps_push w x) = tl (copy_snapshot w) @ [x]"
proof -
  have h: "head w < length (window w)" using assms by (simp add: pps_inv_def)
  have "count (pps_push w x) = length (window (pps_push w x))"
    using assms by (simp only: pps_push_full(2)[OF assms] length_pps_push)
  then have new: "copy_snapshot (pps_push w x) =
      drop (head (pps_push w x)) (window (pps_push w x)) @ take (head (pps_push w x)) (window (pps_push w x))"
    by (rule copy_snapshot_full[OF pps_inv_push[OF assms(1)]])
  have old: "tl (copy_snapshot w) = drop (Suc (head w)) (window w) @ take (head w) (window w)"
    using assms by (simp add: copy_snapshot_full flip: Cons_nth_drop_Suc[OF h])
  show ?thesis unfolding new old using h assms
    by (cases "Suc (head w) = length (window w)") (simp_all add: pps_push_full)
qed

lemma length_copy_snapshot [simp]: "length (copy_snapshot w) = count w"
  by (simp add: copy_snapshot_def)

lemma copy_snapshot_push:
  assumes inv: "pps_inv w"
  shows "copy_snapshot (pps_push w x) =
    drop (Suc (length (copy_snapshot w)) - length (window w)) (copy_snapshot w @ [x])"
proof (cases "window w = []")
  case True
  with inv show ?thesis by (simp add: pps_push_def copy_snapshot_def pps_inv_def)
next
  case ne: False
  consider (fill) "count w < length (window w)" | (full) "count w = length (window w)"
    using inv by (fastforce simp: pps_inv_def)
  then show ?thesis
  proof cases
    case fill
    with inv show ?thesis by (simp add: copy_snapshot_push_filling)
  next
    case full
    then have "copy_snapshot w \<noteq> []" using ne by (metis length_0_conv length_copy_snapshot)
    moreover have "Suc 0 - length (window w) = 0" using ne by (cases "window w") auto
    ultimately show ?thesis using inv full ne
      by (simp add: copy_snapshot_push_full Suc_diff_le drop_Suc)
  qed
qed

interpretation pps: sliding_window PpsWindow pps_push copy_snapshot "\<lambda>w. length (window w)" pps_inv UNIV
proof unfold_locales
  show "pps_inv w \<Longrightarrow> copy_snapshot (pps_push w x) =
      drop (Suc (length (copy_snapshot w)) - length (window w)) (copy_snapshot w @ [x])" for w x
    by (rule copy_snapshot_push)
qed (simp_all add: pps_inv_new pps_inv_push, simp_all add: PpsWindow_def copy_snapshot_def)

section \<open>Latest value and average\<close>

lemma pps_latest_last:
  assumes inv: "pps_inv w" and pos: "0 < count w"
  shows "pps_latest w = last (copy_snapshot w)"
proof (cases "count w < length (window w)")
  case True
  with inv pos have "head w = count w" by (simp add: pps_inv_def)
  with True pos show ?thesis using copy_snapshot_filling[OF inv True]
    by (auto simp: pps_latest_def last_conv_nth)
next
  case False
  with inv have full: "count w = length (window w)" by (simp add: pps_inv_def)
  with pos inv have "window w \<noteq> []" "head w < length (window w)" by (auto simp: pps_inv_def)
  with pos show ?thesis using copy_snapshot_full[OF inv full]
    by (auto simp: pps_latest_def last_conv_nth nth_append)
qed

lemma foldl_window: "c \<le> length xs \<Longrightarrow> foldl (\<lambda>s i. s + xs ! i) (0 :: u64) [0..<c] = sum_list (take c xs)"
  by (induction c) (simp_all add: take_Suc_conv_app_nth)

lemma sum_list_copy_snapshot: "pps_inv w \<Longrightarrow> sum_list (copy_snapshot w) = sum_list (take (count w) (window w))"
proof (cases "count w < length (window w)")
  case False
  assume inv: "pps_inv w"
  with False have full: "count w = length (window w)" by (simp add: pps_inv_def)
  have "sum_list (drop (head w) (window w) @ take (head w) (window w))
      = sum_list (take (head w) (window w) @ drop (head w) (window w))"
    by (simp only: sum_list_append add.commute)
  with full copy_snapshot_full[OF inv full] show ?thesis by simp
qed (simp add: copy_snapshot_filling)

lemma current_average_snapshot:
  "pps_inv w \<Longrightarrow> current_average w =
     (if copy_snapshot w = [] then 0
      else sum_list (copy_snapshot w) div of_nat (length (copy_snapshot w)))"
  using foldl_window[of "count w" "window w"] sum_list_copy_snapshot[of w] length_copy_snapshot[of w]
  by (auto simp: current_average_def pps_inv_def simp del: length_copy_snapshot)

section \<open>Bounds of the sparkline\<close>

lemma max_from_ge: "m \<le> max_from m xs \<and> (\<forall>x \<in> set xs. x \<le> max_from m xs)"
proof (induction xs arbitrary: m)
  case (Cons x xs)
  from Cons[of "if x > m then x else m"] show ?case by (auto split: if_splits)
qed simp

lemma bar_quotient: "x \<le> m \<Longrightarrow> 0 < m \<Longrightarrow> unat ((x * 8) div m) \<le> 8" for x m :: u64
proof -
  assume "x \<le> m" "0 < m"
  then have le: "unat x \<le> unat m" "0 < unat m" by (simp_all add: word_le_nat_alt word_less_nat_alt)
  have "unat (x * 8) \<le> unat x * 8" by (simp add: unat_word_ariths)
  also have "\<dots> \<le> 8 * unat m" using le by simp
  finally have "unat (x * 8) div unat m \<le> 8" using le by (metis div_le_mono nonzero_mult_div_cancel_right less_irrefl)
  then show ?thesis by (simp add: unat_div)
qed

lemma bar_index_bounds: "x \<le> m \<Longrightarrow> 0 < m \<Longrightarrow> 0 \<le> bar_index m x \<and> bar_index m x \<le> 8"
proof -
  assume "x \<le> m" "0 < m"
  then have q: "unat ((x * 8) div m) \<le> 8" by (rule bar_quotient)
  define q where "q = (x * 8) div m"
  have "unat (ucast q :: u32) = unat q"
    using q unfolding q_def[symmetric] by (simp add: unsigned_ucast_eq take_bit_nat_eq_self)
  then have u: "uint (ucast q :: u32) = int (unat q)" by (simp only: uint_nat)
  have "sint (ucast q :: u32) = int (unat q)"
    using q unfolding q_def[symmetric] sint_uint u by (intro signed_take_bit_int_eq_self) (simp_all del: of_nat_unat)
  with q show ?thesis by (simp add: bar_index_def Let_def q_def del: of_nat_unat)
qed

lemma max_from_pos: "0 < (if max_from 0 xs = 0 then 1 else max_from 0 xs)"
  by (simp add: word_neq_0_conv)

lemma shown_bar:
  assumes "x \<in> set xs" "m = (if max_from 0 xs = 0 then 1 else max_from 0 xs)"
  shows "nat (bar_index m x) < length bars"
proof -
  have "x \<le> m"
    using assms max_from_ge[of 0 xs] by (auto split: if_splits)
  then have "0 \<le> bar_index m x \<and> bar_index m x \<le> 8"
    using max_from_pos[of xs] assms(2) by (intro bar_index_bounds) simp_all
  then have "nat (bar_index m x) \<le> 8" by linarith
  then show ?thesis by (simp add: bars_def)
qed

section \<open>Properties\<close>

text \<open>
  Property C34. After any pushes, the ring of a window of size \<open>n\<close> holds exactly the last
  \<open>n\<close> rates in order of arrival; its latest value is the last rate pushed and its average the sum of
  the rates held (modulo \<open>2 ^ 64\<close>) divided by their number.
\<close>

theorem window_keeps_last:
  assumes "0 < n" "xs \<noteq> []" "w = foldl pps_push (PpsWindow n) xs" "held = drop (length xs - n) xs"
  shows "get_snapshot w = held \<and> pps_latest w = last xs \<and>
    current_average w = sum_list held div of_nat (length held)"
proof -
  have inv: "pps_inv w" using pps.run_inv[of n xs] assms(3) by simp
  have snap: "copy_snapshot w = held" using pps.run_view[of n xs] assms(3,4) by simp
  have ne: "held \<noteq> []" using assms by (cases xs) auto
  then have "0 < count w" using snap length_copy_snapshot[of w] by (cases held) auto
  moreover have "last held = last xs" using assms ne by (simp add: last_drop)
  ultimately show ?thesis
    using pps_latest_last[OF inv] current_average_snapshot[OF inv] snap ne by (simp add: get_snapshot_def)
qed

theorem window_keeps_last_witness:
  "get_snapshot (foldl pps_push (PpsWindow 2) [5, 7, 9]) = [7, 9] \<and>
   current_average (foldl pps_push (PpsWindow 2) [5, 7, 9]) = 8"
  using window_keeps_last[of 2 "[5, 7, 9]", OF _ _ refl refl] by simp

text \<open>
  For every history and every width, the sparkline is one glyph per shown
  sample, at most \<open>width\<close> of them, and every glyph index lies within the nine-element table, although
  the scaled sample is computed modulo \<open>2 ^ 64\<close> and narrowed to an \<open>int\<close>.
\<close>

theorem sparkline_in_bounds:
  "\<exists>idx. render_sparkline samples width = concat (map (nth bars) idx) \<and>
     length idx = min (length samples) (nat width) \<and> list_all (\<lambda>i. i < length bars) idx"
proof (cases "samples = [] \<or> width \<le> 0")
  case True
  then show ?thesis by (intro exI[of _ "[]"]) (auto simp: render_sparkline_def)
next
  case False
  define shown where
    "shown = drop (if length samples > nat width then length samples - nat width else 0) samples"
  define m where "m = (if max_from 0 shown = 0 then 1 else max_from 0 shown)"
  have "render_sparkline samples width = concat (map (nth bars) (map (nat \<circ> bar_index m) shown))"
    using False by (simp add: render_sparkline_def Let_def shown_def m_def comp_def)
  moreover have "length shown = min (length samples) (nat width)" by (auto simp: shown_def)
  moreover have "list_all (\<lambda>i. i < length bars) (map (nat \<circ> bar_index m) shown)"
    using shown_bar[OF _ m_def] by (simp add: list_all_iff)
  ultimately show ?thesis by (metis length_map)
qed

end
