(* ===== verification/KW_Tracker.thy ===== *)
theory KW_Tracker
  imports KW_Event "HOL-Library.AList"
begin

text \<open>
  \<open>src/core/flow_tracker.cpp\<close> and \<open>flow_tracker.h\<close>: per-source SYN accounting, flood flags and the
  automatic block list. An \<open>std::unordered_map\<close> is an association list with distinct keys whose order
  stands for the unspecified iteration order (a new key goes to the end, an existing one keeps its
  place); the theorems read the table through \<open>map_of\<close> and \<open>set\<close>, so they do not depend on that
  order. Counters are 32-bit and times 64-bit words with the wrap-around of the source. Log lines are
  not part of the state.
\<close>

section \<open>Data\<close>

record flow_key =
  k_src_ip :: u32
  k_dst_ip :: u32
  k_src_port :: u16
  k_dst_port :: u16

record flow_rec =
  f_syn_count :: u32
  f_ack_count :: u32
  f_first_seen_ns :: u64
  f_last_seen_ns :: u64

record flow_map_entry =
  fe_key :: kwatch_flow_key
  fe_stats :: kwatch_flow_stats

record flow_aggregate =
  agg_src_ip :: u32
  agg_syn_count :: u32
  agg_ack_count :: u32
  agg_last_seen_ns :: u64

record ip_stats =
  ip_syn_count :: u32
  ip_ack_count :: u32
  last_event_ns :: u64
  block_start_ns :: u64
  ip_generation :: u64
  is_flagged :: bool
  is_blocked :: bool
  last_ttl :: u8

definition ip_stats0 :: ip_stats where
  "ip_stats0 = \<lparr>ip_syn_count = 0, ip_ack_count = 0, last_event_ns = 0, block_start_ns = 0,
     ip_generation = 0, is_flagged = False, is_blocked = False, last_ttl = 0\<rparr>"

record flow_tracker =
  syn_threshold :: u32
  syn_window_ns :: u64
  auto_block_enabled :: bool
  auto_block_ttl_ns :: u64
  flows :: "(flow_key \<times> flow_rec) list"
  ip_table :: "(u32 \<times> ip_stats) list"
  aggregate_index :: "(u32 \<times> nat) list"
  aggregate_scratch :: "flow_aggregate list"
  snapshot_generation :: u64
  block_scratch :: "u32 list"
  unblock_scratch :: "u32 list"

definition kMaxFlows :: nat where "kMaxFlows = 65536"
definition kMaxIpStats :: nat where "kMaxIpStats = 16384"
definition kFlowIdleTtlNs :: u64 where "kFlowIdleTtlNs = 60 * ns_per_s"

definition FlowTracker :: "u32 \<Rightarrow> u32 \<Rightarrow> bool \<Rightarrow> u32 \<Rightarrow> flow_tracker" where
  "FlowTracker threshold window auto_block block_ttl =
     \<lparr>syn_threshold = threshold, syn_window_ns = ucast window * ns_per_s,
      auto_block_enabled = auto_block, auto_block_ttl_ns = ucast block_ttl * ns_per_s,
      flows = [], ip_table = [], aggregate_index = [], aggregate_scratch = [],
      snapshot_generation = 0, block_scratch = [], unblock_scratch = []\<rparr>"

section \<open>Operations\<close>

text \<open>\<open>ip_stats[ip]\<close>: an absent key is inserted with the default value.\<close>

definition stats_at :: "(u32 \<times> ip_stats) list \<Rightarrow> u32 \<Rightarrow> ip_stats" where
  "stats_at tbl ip = (case map_of tbl ip of Some s \<Rightarrow> s | None \<Rightarrow> ip_stats0)"

definition touch_stats :: "kwatch_event \<Rightarrow> ip_stats \<Rightarrow> ip_stats" where
  "touch_stats e s =
     (let s1 = (if ttl e \<noteq> 0 then s\<lparr>last_ttl := ttl e\<rparr> else s)
      in if ts_ns e > last_event_ns s1 then s1\<lparr>last_event_ns := ts_ns e\<rparr> else s1)"

definition process_event :: "kwatch_event \<Rightarrow> flow_tracker \<Rightarrow> flow_tracker" where
  "process_event e t =
     t\<lparr>ip_table := AList.update (src_ip e) (touch_stats e (stats_at (ip_table t) (src_ip e))) (ip_table t)\<rparr>"

text \<open>The three \<open>continue\<close> guards of the aggregation loop.\<close>

definition entry_skipped :: "u64 \<Rightarrow> u64 \<Rightarrow> flow_map_entry \<Rightarrow> bool" where
  "entry_skipped window now_ns en \<longleftrightarrow>
     (fk_protocol (fe_key en) \<noteq> 6 \<or> last_seen_ns (fe_stats en) = 0) \<or>
     (now_ns > last_seen_ns (fe_stats en) \<and> now_ns - last_seen_ns (fe_stats en) > window) \<or>
     (first_seen_ns (fe_stats en) \<noteq> 0 \<and> now_ns > first_seen_ns (fe_stats en) \<and>
      now_ns - first_seen_ns (fe_stats en) > window)"

definition aggregate_step ::
    "u64 \<Rightarrow> u64 \<Rightarrow> (u32 \<times> nat) list \<times> flow_aggregate list \<Rightarrow> flow_map_entry
     \<Rightarrow> (u32 \<times> nat) list \<times> flow_aggregate list" where
  "aggregate_step window now_ns st en =
     (let (index, scratch) = st; ip = fk_src_ip (fe_key en); s = fe_stats en in
      if entry_skipped window now_ns en then st
      else case map_of index ip of
             None \<Rightarrow>
               (AList.update ip (length scratch) index,
                scratch @ [\<lparr>agg_src_ip = ip, agg_syn_count = syn_count s,
                            agg_ack_count = ack_count s, agg_last_seen_ns = last_seen_ns s\<rparr>])
           | Some i \<Rightarrow>
               (index,
                scratch[i := (scratch ! i)
                  \<lparr>agg_syn_count := agg_syn_count (scratch ! i) + syn_count s,
                   agg_ack_count := agg_ack_count (scratch ! i) + ack_count s,
                   agg_last_seen_ns :=
                     (if last_seen_ns s > agg_last_seen_ns (scratch ! i) then last_seen_ns s
                      else agg_last_seen_ns (scratch ! i))\<rparr>]))"

definition next_generation :: "u64 \<Rightarrow> u64" where
  "next_generation g = (let g1 = g + 1 in if g1 = 0 then g1 + 1 else g1)"

definition unmatched_syns :: "u32 \<Rightarrow> u32 \<Rightarrow> u32" where
  "unmatched_syns syn ack = (if syn > ack then syn - ack else 0)"

definition merge_aggregate :: "u32 \<Rightarrow> u64 \<Rightarrow> ip_stats \<Rightarrow> flow_aggregate \<Rightarrow> ip_stats" where
  "merge_aggregate threshold gen s0 a =
     (let s = s0\<lparr>ip_syn_count := agg_syn_count a, ip_ack_count := agg_ack_count a,
                 last_event_ns := agg_last_seen_ns a, ip_generation := gen\<rparr>;
          unmatched = unmatched_syns (ip_syn_count s) (ip_ack_count s)
      in if \<not> is_flagged s \<and> unmatched \<ge> threshold then s\<lparr>is_flagged := True\<rparr> else s)"

definition apply_aggregate ::
    "u32 \<Rightarrow> u64 \<Rightarrow> (u32 \<times> ip_stats) list \<Rightarrow> flow_aggregate \<Rightarrow> (u32 \<times> ip_stats) list" where
  "apply_aggregate threshold gen tbl a =
     AList.update (agg_src_ip a) (merge_aggregate threshold gen (stats_at tbl (agg_src_ip a)) a) tbl"

definition reset_stale :: "u64 \<Rightarrow> u64 \<Rightarrow> u64 \<Rightarrow> ip_stats \<Rightarrow> ip_stats" where
  "reset_stale window gen now_ns s =
     (if ip_generation s = gen \<or> is_blocked s then s
      else if last_event_ns s = 0 \<or>
              (now_ns > last_event_ns s \<and> now_ns - last_event_ns s > window)
           then s\<lparr>ip_syn_count := 0, ip_ack_count := 0, is_flagged := False\<rparr>
      else s)"

definition process_flow_snapshot :: "flow_map_entry list \<Rightarrow> u64 \<Rightarrow> flow_tracker \<Rightarrow> flow_tracker" where
  "process_flow_snapshot entries now_ns t =
     (let (index, scratch) = foldl (aggregate_step (syn_window_ns t) now_ns) ([], []) entries;
          gen = next_generation (snapshot_generation t);
          tbl = foldl (apply_aggregate (syn_threshold t) gen) (ip_table t) scratch
      in t\<lparr>aggregate_index := index, aggregate_scratch := scratch, snapshot_generation := gen,
           ip_table := map (\<lambda>(ip, s). (ip, reset_stale (syn_window_ns t) gen now_ns s)) tbl\<rparr>)"

definition stats_idle :: "u64 \<Rightarrow> ip_stats \<Rightarrow> bool" where
  "stats_idle now_ns s \<longleftrightarrow> now_ns > last_event_ns s + kFlowIdleTtlNs"

definition evict_idle :: "u64 \<Rightarrow> flow_tracker \<Rightarrow> flow_tracker" where
  "evict_idle now_ns t =
     (let fl = (if length (flows t) > kMaxFlows div 2
                then filter (\<lambda>(_, f). \<not> now_ns > f_last_seen_ns f + kFlowIdleTtlNs) (flows t)
                else flows t);
          fl' = (if length fl > kMaxFlows then [] else fl);
          tbl = (if length (ip_table t) > kMaxIpStats
                 then filter (\<lambda>(_, s). \<not> (stats_idle now_ns s \<and> \<not> is_flagged s \<and> \<not> is_blocked s))
                        (ip_table t)
                 else ip_table t)
      in t\<lparr>flows := fl', ip_table := tbl\<rparr>)"

definition to_be_blocked :: "flow_tracker \<Rightarrow> ip_stats \<Rightarrow> bool" where
  "to_be_blocked t s \<longleftrightarrow> is_flagged s \<and> \<not> is_blocked s \<and> auto_block_enabled t"

definition tick_and_get_blocks :: "u64 \<Rightarrow> flow_tracker \<Rightarrow> u32 list \<times> flow_tracker" where
  "tick_and_get_blocks now_ns t =
     (let scratch = map fst (filter (\<lambda>(_, s). to_be_blocked t s) (ip_table t));
          tbl = map (\<lambda>(ip, s). (ip, if to_be_blocked t s
                                    then s\<lparr>is_blocked := True, block_start_ns := now_ns\<rparr> else s))
                  (ip_table t);
          t' = evict_idle now_ns (t\<lparr>block_scratch := scratch, ip_table := tbl\<rparr>)
      in (block_scratch t', t'))"

definition block_expired :: "flow_tracker \<Rightarrow> u64 \<Rightarrow> ip_stats \<Rightarrow> bool" where
  "block_expired t now_ns s \<longleftrightarrow> is_blocked s \<and> now_ns \<ge> block_start_ns s + auto_block_ttl_ns t"

definition get_expired_blocks :: "u64 \<Rightarrow> flow_tracker \<Rightarrow> u32 list \<times> flow_tracker" where
  "get_expired_blocks now_ns t =
     (let scratch = map fst (filter (\<lambda>(_, s). block_expired t now_ns s) (ip_table t));
          tbl = map (\<lambda>(ip, s). (ip, if block_expired t now_ns s
                     then s\<lparr>is_blocked := False, is_flagged := False, ip_syn_count := 0,
                            ip_ack_count := 0\<rparr> else s))
                  (ip_table t)
      in (scratch, t\<lparr>unblock_scratch := scratch, ip_table := tbl\<rparr>))"

definition get_ip_snapshot :: "flow_tracker \<Rightarrow> (u32 \<times> ip_stats) list" where
  "get_ip_snapshot t = ip_table t"

section \<open>Reference: the sums of a snapshot\<close>

definition counted :: "u64 \<Rightarrow> u64 \<Rightarrow> flow_map_entry list \<Rightarrow> u32 \<Rightarrow> flow_map_entry list" where
  "counted window now_ns es ip =
     filter (\<lambda>en. \<not> entry_skipped window now_ns en \<and> fk_src_ip (fe_key en) = ip) es"

definition syn_total :: "flow_map_entry list \<Rightarrow> u32" where
  "syn_total es = sum_list (map (syn_count \<circ> fe_stats) es)"

definition ack_total :: "flow_map_entry list \<Rightarrow> u32" where
  "ack_total es = sum_list (map (ack_count \<circ> fe_stats) es)"

definition last_seen_max :: "flow_map_entry list \<Rightarrow> u64" where
  "last_seen_max es = foldl max 0 (map (last_seen_ns \<circ> fe_stats) es)"

text \<open>The sources the tracker holds as blocked, and the well-formedness of the table.\<close>

definition blocked_ips :: "flow_tracker \<Rightarrow> u32 set" where
  "blocked_ips t = {ip. \<exists>s. map_of (ip_table t) ip = Some s \<and> is_blocked s}"

definition tracker_inv :: "flow_tracker \<Rightarrow> bool" where
  "tracker_inv t \<longleftrightarrow>
     distinct (map fst (ip_table t)) \<and>
     list_all (\<lambda>(_, s). is_blocked s \<longrightarrow> is_flagged s \<and> auto_block_enabled t) (ip_table t)"

section \<open>Association lists\<close>

lemma map_of_filter_snd:
  "distinct (map fst xs) \<Longrightarrow>
     map_of (filter (\<lambda>(_, v). P v) xs) k = Option.bind (map_of xs k) (\<lambda>v. if P v then Some v else None)"
  by (induction xs) (auto simp: map_of_eq_None_iff image_iff split: option.splits)

lemma set_keys_filter:
  "distinct (map fst xs) \<Longrightarrow>
     set (map fst (filter (\<lambda>(_, v). P v) xs)) = {k. \<exists>v. map_of xs k = Some v \<and> P v}"
  by (force simp: map_of_eq_Some_iff)

lemma distinct_keys_filter: "distinct (map fst xs) \<Longrightarrow> distinct (map fst (filter P xs))"
  by (induction xs) auto

lemma fst_comp_snd [simp]: "fst \<circ> (\<lambda>(k, v). (k, f v)) = fst"
  by auto

lemma list_all_update:
  "list_all P xs \<Longrightarrow> P (k, v) \<Longrightarrow> list_all P (AList.update k v xs)"
  by (induction xs) auto

lemma list_all_map_of: "list_all (\<lambda>(_, v). P v) xs \<Longrightarrow> map_of xs k = Some v \<Longrightarrow> P v"
  by (auto simp: list_all_iff dest: map_of_SomeD)

lemma list_all_map_snd:
  "list_all (\<lambda>(_, v). P v) xs \<Longrightarrow> (\<And>v. P v \<Longrightarrow> Q (f v)) \<Longrightarrow>
     list_all (\<lambda>(_, v). Q v) (map (\<lambda>(k, v). (k, f v)) xs)"
  by (induction xs) auto

section \<open>The invariant is kept by every operation\<close>

text \<open>The flag and block bits of an entry agree with the tracker's mode.\<close>

definition bits_ok :: "bool \<Rightarrow> ip_stats \<Rightarrow> bool" where
  "bits_ok auto s \<longleftrightarrow> (is_blocked s \<longrightarrow> is_flagged s \<and> auto)"

lemma tracker_inv_alt:
  "tracker_inv t \<longleftrightarrow> distinct (map fst (ip_table t)) \<and>
     list_all (\<lambda>(_, s). bits_ok (auto_block_enabled t) s) (ip_table t)"
  by (simp add: tracker_inv_def bits_ok_def)

lemma bits_ok_stats_at: "list_all (\<lambda>(_, s). bits_ok a s) tbl \<Longrightarrow> bits_ok a (stats_at tbl ip)"
  by (auto simp: stats_at_def ip_stats0_def bits_ok_def dest: list_all_map_of split: option.splits)

lemma tracker_inv_new [simp]: "tracker_inv (FlowTracker th w a tt)"
  by (simp add: tracker_inv_def FlowTracker_def)

lemma touch_stats_bits [simp]:
  "is_blocked (touch_stats e s) = is_blocked s" "is_flagged (touch_stats e s) = is_flagged s"
  by (simp_all add: touch_stats_def Let_def)

lemma tracker_inv_process_event: "tracker_inv t \<Longrightarrow> tracker_inv (process_event e t)"
  using bits_ok_stats_at[of "auto_block_enabled t" "ip_table t" "src_ip e"]
  by (auto simp: tracker_inv_alt process_event_def distinct_update bits_ok_def intro!: list_all_update)

lemma apply_aggregate_inv:
  assumes "distinct (map fst tbl)" "list_all (\<lambda>(_, s). bits_ok auto s) tbl"
  shows "distinct (map fst (apply_aggregate th g tbl a))"
    "list_all (\<lambda>(_, s). bits_ok auto s) (apply_aggregate th g tbl a)"
  using assms bits_ok_stats_at[OF assms(2), of "agg_src_ip a"]
  by (auto simp: apply_aggregate_def merge_aggregate_def Let_def distinct_update bits_ok_def
      intro!: list_all_update)

lemma fold_aggregate_inv:
  assumes "distinct (map fst tbl)" "list_all (\<lambda>(_, s). bits_ok auto s) tbl"
  shows "distinct (map fst (foldl (apply_aggregate th g) tbl as)) \<and>
    list_all (\<lambda>(_, s). bits_ok auto s) (foldl (apply_aggregate th g) tbl as)"
  using assms by (induction as arbitrary: tbl) (simp_all add: apply_aggregate_inv)

lemma reset_stale_bits: "bits_ok a s \<Longrightarrow> bits_ok a (reset_stale w g n s)"
  by (auto simp: bits_ok_def reset_stale_def)

lemma tracker_inv_process_flow_snapshot:
  "tracker_inv t \<Longrightarrow> tracker_inv (process_flow_snapshot es now t)"
  using fold_aggregate_inv[of "ip_table t" "auto_block_enabled t"]
  by (auto simp: tracker_inv_alt process_flow_snapshot_def Let_def split: prod.splits
      intro!: list_all_map_snd[where P = "bits_ok (auto_block_enabled t)"] reset_stale_bits)

lemma tracker_inv_evict: "tracker_inv t \<Longrightarrow> tracker_inv (evict_idle now t)"
  by (auto simp: tracker_inv_def evict_idle_def Let_def distinct_keys_filter list_all_iff)

lemma block_bits:
  "bits_ok (auto_block_enabled t) s \<Longrightarrow> bits_ok (auto_block_enabled t)
     (if to_be_blocked t s then s\<lparr>is_blocked := True, block_start_ns := now\<rparr> else s)"
  by (auto simp: bits_ok_def to_be_blocked_def)

lemma expire_bits:
  "bits_ok a s \<Longrightarrow> bits_ok a (if block_expired t now s
     then s\<lparr>is_blocked := False, is_flagged := False, ip_syn_count := 0, ip_ack_count := 0\<rparr> else s)"
  by (auto simp: bits_ok_def)

lemma tracker_inv_tick: "tracker_inv t \<Longrightarrow> tracker_inv (snd (tick_and_get_blocks now t))"
  unfolding tick_and_get_blocks_def Let_def snd_conv
  by (rule tracker_inv_evict) (auto simp: tracker_inv_alt
      intro!: list_all_map_snd[where P = "bits_ok (auto_block_enabled t)"] block_bits)

lemma tracker_inv_expire: "tracker_inv t \<Longrightarrow> tracker_inv (snd (get_expired_blocks now t))"
  by (auto simp: tracker_inv_alt get_expired_blocks_def Let_def
      intro!: list_all_map_snd[where P = "bits_ok (auto_block_enabled t)"] expire_bits)

lemmas tracker_inv_intros [intro] =
  tracker_inv_process_event tracker_inv_process_flow_snapshot tracker_inv_evict
  tracker_inv_tick tracker_inv_expire

section \<open>What each operation does to an entry\<close>

definition entry_of :: "flow_tracker \<Rightarrow> u32 \<Rightarrow> ip_stats option" where
  "entry_of t ip = map_of (ip_table t) ip"

lemma blocked_ips_entry:
  "ip \<in> blocked_ips t \<longleftrightarrow> (case entry_of t ip of None \<Rightarrow> False | Some s \<Rightarrow> is_blocked s)"
  by (auto simp: blocked_ips_def entry_of_def split: option.splits)

lemma stats_at_entry:
  "stats_at (ip_table t) ip = (case entry_of t ip of Some s \<Rightarrow> s | None \<Rightarrow> ip_stats0)"
  by (simp add: stats_at_def entry_of_def)

lemma entry_process_event:
  "entry_of (process_event e t) ip =
     (if ip = src_ip e then Some (touch_stats e (stats_at (ip_table t) ip)) else entry_of t ip)"
  by (simp add: entry_of_def process_event_def update_conv)

lemma entry_evict:
  "tracker_inv t \<Longrightarrow> entry_of (evict_idle now t) ip =
     (case entry_of t ip of
        None \<Rightarrow> None
      | Some s \<Rightarrow> if length (ip_table t) > kMaxIpStats \<and> stats_idle now s \<and> \<not> is_flagged s \<and> \<not> is_blocked s
                  then None else Some s)"
  by (auto simp: entry_of_def evict_idle_def Let_def tracker_inv_def map_of_filter_snd split: option.splits)

lemma tick_output:
  "fst (tick_and_get_blocks now t) = map fst (filter (\<lambda>(_, s). to_be_blocked t s) (ip_table t))"
  by (simp add: tick_and_get_blocks_def Let_def evict_idle_def)

lemma entry_tick:
  assumes inv: "tracker_inv t"
  shows "entry_of (snd (tick_and_get_blocks now t)) ip =
     (case entry_of t ip of
        None \<Rightarrow> None
      | Some s \<Rightarrow>
          if to_be_blocked t s then Some (s\<lparr>is_blocked := True, block_start_ns := now\<rparr>)
          else if length (ip_table t) > kMaxIpStats \<and> stats_idle now s \<and> \<not> is_flagged s \<and> \<not> is_blocked s
          then None else Some s)"
proof -
  let ?f = "\<lambda>s. if to_be_blocked t s then s\<lparr>is_blocked := True, block_start_ns := now\<rparr> else s"
  let ?t = "t\<lparr>block_scratch := map fst (filter (\<lambda>(_, s). to_be_blocked t s) (ip_table t)),
      ip_table := map (\<lambda>(ip, s). (ip, ?f s)) (ip_table t)\<rparr>"
  have "tracker_inv ?t" using inv
    by (auto simp: tracker_inv_alt
        intro!: list_all_map_snd[where P = "bits_ok (auto_block_enabled t)"] block_bits)
  from entry_evict[OF this, of now ip] show ?thesis
    by (auto simp: tick_and_get_blocks_def Let_def entry_of_def map_of_map to_be_blocked_def
        split: option.splits)
qed

lemma expire_output:
  "fst (get_expired_blocks now t) = map fst (filter (\<lambda>(_, s). block_expired t now s) (ip_table t))"
  by (simp add: get_expired_blocks_def Let_def)

lemma entry_expire:
  "entry_of (snd (get_expired_blocks now t)) ip =
     map_option (\<lambda>s. if block_expired t now s
       then s\<lparr>is_blocked := False, is_flagged := False, ip_syn_count := 0, ip_ack_count := 0\<rparr> else s)
       (entry_of t ip)"
  by (simp add: get_expired_blocks_def Let_def entry_of_def map_of_map)

lemma tick_output_set:
  "tracker_inv t \<Longrightarrow> set (fst (tick_and_get_blocks now t)) = {ip. \<exists>s. entry_of t ip = Some s \<and> to_be_blocked t s}"
  unfolding tick_output entry_of_def by (rule set_keys_filter) (simp add: tracker_inv_def)

lemma expire_output_set:
  "tracker_inv t \<Longrightarrow> set (fst (get_expired_blocks now t)) = {ip. \<exists>s. entry_of t ip = Some s \<and> block_expired t now s}"
  unfolding expire_output entry_of_def by (rule set_keys_filter) (simp add: tracker_inv_def)

lemma tick_output_distinct: "tracker_inv t \<Longrightarrow> distinct (fst (tick_and_get_blocks now t))"
  by (simp add: tick_output tracker_inv_def distinct_keys_filter)

lemma expire_output_distinct: "tracker_inv t \<Longrightarrow> distinct (fst (get_expired_blocks now t))"
  by (simp add: expire_output tracker_inv_def distinct_keys_filter)

section \<open>Effect on the blocked set\<close>

lemma blocked_process_event [simp]: "blocked_ips (process_event e t) = blocked_ips t"
  by (auto simp: blocked_ips_entry entry_process_event stats_at_entry ip_stats0_def
      split: option.splits if_splits)

lemma blocked_evict: "tracker_inv t \<Longrightarrow> blocked_ips (evict_idle now t) = blocked_ips t"
  by (auto simp: blocked_ips_entry entry_evict split: option.splits if_splits)

lemma blocked_tick:
  assumes "tracker_inv t"
  shows "blocked_ips (snd (tick_and_get_blocks now t)) = blocked_ips t \<union> set (fst (tick_and_get_blocks now t))"
    "set (fst (tick_and_get_blocks now t)) \<inter> blocked_ips t = {}"
  using assms unfolding tick_output_set[OF assms]
  by (auto simp: blocked_ips_entry entry_tick to_be_blocked_def split: option.splits if_splits)

lemma blocked_expire:
  assumes "tracker_inv t"
  shows "blocked_ips (snd (get_expired_blocks now t)) = blocked_ips t - set (fst (get_expired_blocks now t))"
    "set (fst (get_expired_blocks now t)) \<subseteq> blocked_ips t"
  using assms unfolding expire_output_set[OF assms]
  by (auto simp: blocked_ips_entry entry_expire block_expired_def split: option.splits if_splits)

section \<open>Aggregation computes the sums of the snapshot\<close>

definition summary :: "u64 \<Rightarrow> u64 \<Rightarrow> flow_map_entry list \<Rightarrow> u32 \<Rightarrow> flow_aggregate option" where
  "summary window now_ns es ip =
     (let cs = counted window now_ns es ip in
      if cs = [] then None
      else Some \<lparr>agg_src_ip = ip, agg_syn_count = syn_total cs, agg_ack_count = ack_total cs,
                 agg_last_seen_ns = last_seen_max cs\<rparr>)"

definition agg_ok ::
    "u64 \<Rightarrow> u64 \<Rightarrow> flow_map_entry list \<Rightarrow> (u32 \<times> nat) list \<times> flow_aggregate list \<Rightarrow> bool" where
  "agg_ok window now_ns es st \<longleftrightarrow>
     (\<forall>ip i. map_of (fst st) ip = Some i \<longleftrightarrow> i < length (snd st) \<and> agg_src_ip (snd st ! i) = ip) \<and>
     (\<forall>i < length (snd st). summary window now_ns es (agg_src_ip (snd st ! i)) = Some (snd st ! i)) \<and>
     (\<forall>ip. summary window now_ns es ip \<noteq> None \<longrightarrow> map_of (fst st) ip \<noteq> None)"

lemma counted_snoc:
  "counted w now (es @ [en]) ip =
     (if \<not> entry_skipped w now en \<and> fk_src_ip (fe_key en) = ip then counted w now es ip @ [en]
      else counted w now es ip)"
  by (simp add: counted_def)

lemma totals_snoc:
  "syn_total (cs @ [en]) = syn_total cs + syn_count (fe_stats en)"
  "ack_total (cs @ [en]) = ack_total cs + ack_count (fe_stats en)"
  "last_seen_max (cs @ [en]) =
     (if last_seen_ns (fe_stats en) > last_seen_max cs then last_seen_ns (fe_stats en) else last_seen_max cs)"
  by (auto simp: syn_total_def ack_total_def last_seen_max_def max_def)

lemma totals_Nil [simp]: "syn_total [] = 0" "ack_total [] = 0" "last_seen_max [] = 0"
  by (simp_all add: syn_total_def ack_total_def last_seen_max_def)

lemma summary_other:
  "entry_skipped w now en \<or> fk_src_ip (fe_key en) \<noteq> ip \<Longrightarrow> summary w now (es @ [en]) ip = summary w now es ip"
  by (auto simp: summary_def counted_snoc)

lemma summary_first:
  assumes "\<not> entry_skipped w now en" "summary w now es (fk_src_ip (fe_key en)) = None"
  shows "summary w now (es @ [en]) (fk_src_ip (fe_key en)) =
    Some \<lparr>agg_src_ip = fk_src_ip (fe_key en), agg_syn_count = syn_count (fe_stats en),
          agg_ack_count = ack_count (fe_stats en), agg_last_seen_ns = last_seen_ns (fe_stats en)\<rparr>"
proof -
  have "counted w now es (fk_src_ip (fe_key en)) = []"
    using assms(2) by (simp add: summary_def Let_def split: if_splits)
  moreover have "last_seen_ns (fe_stats en) \<noteq> 0" using assms(1) by (auto simp: entry_skipped_def)
  ultimately show ?thesis using assms(1) totals_snoc[of "[]" en]
    by (simp add: summary_def counted_snoc word_gt_0)
qed

lemma summary_next:
  assumes "\<not> entry_skipped w now en" "summary w now es (fk_src_ip (fe_key en)) = Some a"
  shows "summary w now (es @ [en]) (fk_src_ip (fe_key en)) =
    Some (a\<lparr>agg_syn_count := agg_syn_count a + syn_count (fe_stats en),
            agg_ack_count := agg_ack_count a + ack_count (fe_stats en),
            agg_last_seen_ns := (if last_seen_ns (fe_stats en) > agg_last_seen_ns a
               then last_seen_ns (fe_stats en) else agg_last_seen_ns a)\<rparr>)"
  using assms by (auto simp: summary_def Let_def counted_snoc totals_snoc split: if_splits)

lemma summary_ip: "summary w now es ip = Some a \<Longrightarrow> agg_src_ip a = ip"
  by (auto simp: summary_def Let_def split: if_splits)

lemma agg_okI:
  assumes "\<And>ip i. map_of index ip = Some i \<longleftrightarrow> i < length scratch \<and> agg_src_ip (scratch ! i) = ip"
    "\<And>i. i < length scratch \<Longrightarrow> summary w now es (agg_src_ip (scratch ! i)) = Some (scratch ! i)"
    "\<And>ip. summary w now es ip \<noteq> None \<Longrightarrow> map_of index ip \<noteq> None"
  shows "agg_ok w now es (index, scratch)"
  unfolding agg_ok_def fst_conv snd_conv using assms by blast

lemma agg_okD:
  assumes "agg_ok w now es (index, scratch)"
  shows "map_of index ip = Some i \<longleftrightarrow> i < length scratch \<and> agg_src_ip (scratch ! i) = ip"
    "i < length scratch \<Longrightarrow> summary w now es (agg_src_ip (scratch ! i)) = Some (scratch ! i)"
    "map_of index ip = None \<Longrightarrow> summary w now es ip = None"
  using assms unfolding agg_ok_def fst_conv snd_conv by blast+

lemma agg_ok_new:
  assumes ok: "agg_ok w now es (index, scratch)" and none: "map_of index (agg_src_ip a) = None"
    and new: "summary w now es' (agg_src_ip a) = Some a"
    and other: "\<And>ip. ip \<noteq> agg_src_ip a \<Longrightarrow> summary w now es' ip = summary w now es ip"
  shows "agg_ok w now es' (AList.update (agg_src_ip a) (length scratch) index, scratch @ [a])"
proof (rule agg_okI)
  have fresh: "i < length scratch \<Longrightarrow> agg_src_ip (scratch ! i) \<noteq> agg_src_ip a" for i
    using agg_okD(1)[OF ok, of "agg_src_ip a" i] none by auto
  show "map_of (AList.update (agg_src_ip a) (length scratch) index) ip = Some i \<longleftrightarrow>
      i < length (scratch @ [a]) \<and> agg_src_ip ((scratch @ [a]) ! i) = ip" for ip i
    using fresh agg_okD(1)[OF ok, of ip i] by (auto simp: update_conv nth_append less_Suc_eq)
  show "summary w now es' (agg_src_ip ((scratch @ [a]) ! i)) = Some ((scratch @ [a]) ! i)"
    if "i < length (scratch @ [a])" for i
    using that new fresh[of i] other agg_okD(2)[OF ok, of i] by (cases "i < length scratch") (auto simp: nth_append)
  show "map_of (AList.update (agg_src_ip a) (length scratch) index) ip \<noteq> None"
    if "summary w now es' ip \<noteq> None" for ip
    using that other[of ip] agg_okD(3)[OF ok, of ip]
    by (cases "ip = agg_src_ip a"; cases "map_of index ip") (auto simp: update_conv)
qed

lemma agg_ok_add:
  assumes ok: "agg_ok w now es (index, scratch)" and j: "map_of index (agg_src_ip a) = Some j"
    and new: "summary w now es' (agg_src_ip a) = Some a"
    and other: "\<And>ip. ip \<noteq> agg_src_ip a \<Longrightarrow> summary w now es' ip = summary w now es ip"
  shows "agg_ok w now es' (index, scratch[j := a])"
proof (rule agg_okI)
  have jj: "j < length scratch" "agg_src_ip (scratch ! j) = agg_src_ip a"
    using agg_okD(1)[OF ok] j by simp_all
  have only: "i < length scratch \<Longrightarrow> i \<noteq> j \<Longrightarrow> agg_src_ip (scratch ! i) \<noteq> agg_src_ip a" for i
    using agg_okD(1)[OF ok, of "agg_src_ip a" i] j by auto
  show "map_of index ip = Some i \<longleftrightarrow>
      i < length (scratch[j := a]) \<and> agg_src_ip (scratch[j := a] ! i) = ip" for ip i
    using jj agg_okD(1)[OF ok, of ip i] by (cases "i = j") auto
  show "summary w now es' (agg_src_ip (scratch[j := a] ! i)) = Some (scratch[j := a] ! i)"
    if "i < length (scratch[j := a])" for i
    using that new jj only[of i] other agg_okD(2)[OF ok, of i] by (cases "i = j") auto
  show "map_of index ip \<noteq> None" if "summary w now es' ip \<noteq> None" for ip
    using that other[of ip] agg_okD(3)[OF ok, of ip] j by (cases "ip = agg_src_ip a"; cases "map_of index ip") auto
qed

lemma agg_ok_step:
  assumes ok: "agg_ok w now es st"
  shows "agg_ok w now (es @ [en]) (aggregate_step w now st en)"
proof -
  obtain index scratch where st: "st = (index, scratch)" by (cases st)
  let ?ip = "fk_src_ip (fe_key en)" and ?s = "fe_stats en"
  show ?thesis
  proof (cases "entry_skipped w now en")
    case True
    then have same: "aggregate_step w now st en = st" "summary w now (es @ [en]) = summary w now es"
      by (simp_all add: aggregate_step_def st summary_other fun_eq_iff)
    show ?thesis using ok unfolding agg_ok_def same .
  next
    case live: False
    show ?thesis
    proof (cases "map_of index ?ip")
      case None
      then have "summary w now es ?ip = None" using agg_okD(3)[OF ok[unfolded st]] by blast
      from summary_first[OF live this] show ?thesis
        using live None agg_ok_new[OF ok[unfolded st], of "\<lparr>agg_src_ip = ?ip, agg_syn_count = syn_count ?s,
            agg_ack_count = ack_count ?s, agg_last_seen_ns = last_seen_ns ?s\<rparr>" "es @ [en]"]
        by (simp add: aggregate_step_def st Let_def summary_other)
    next
      case (Some j)
      with agg_okD(1)[OF ok[unfolded st]] have "j < length scratch" "agg_src_ip (scratch ! j) = ?ip" by simp_all
      with agg_okD(2)[OF ok[unfolded st]] have "summary w now es ?ip = Some (scratch ! j)" by metis
      from summary_next[OF live this] show ?thesis
        using live Some \<open>agg_src_ip (scratch ! j) = ?ip\<close>
          agg_ok_add[OF ok[unfolded st], where a = "(scratch ! j)
            \<lparr>agg_syn_count := agg_syn_count (scratch ! j) + syn_count ?s,
             agg_ack_count := agg_ack_count (scratch ! j) + ack_count ?s,
             agg_last_seen_ns := (if last_seen_ns ?s > agg_last_seen_ns (scratch ! j)
               then last_seen_ns ?s else agg_last_seen_ns (scratch ! j))\<rparr>" and es' = "es @ [en]"]
        by (simp add: aggregate_step_def st Let_def summary_other)
    qed
  qed
qed

lemma agg_ok_fold: "agg_ok w now es (foldl (aggregate_step w now) ([], []) es)"
proof (induction es rule: rev_induct)
  case Nil
  then show ?case by (simp add: agg_ok_def summary_def counted_def)
next
  case (snoc en es)
  then show ?case by (simp add: agg_ok_step)
qed

section \<open>The effect of a snapshot on an entry\<close>

lemma map_of_apply_aggregate:
  "map_of (apply_aggregate th g tbl a) ip =
     (if ip = agg_src_ip a then Some (merge_aggregate th g (stats_at tbl ip) a) else map_of tbl ip)"
  by (simp add: apply_aggregate_def update_conv)

lemma map_of_fold_aggregate:
  "distinct (map agg_src_ip as) \<Longrightarrow>
     map_of (foldl (apply_aggregate th g) tbl as) ip =
       (case find (\<lambda>a. agg_src_ip a = ip) as of
          Some a \<Rightarrow> Some (merge_aggregate th g (stats_at tbl ip) a)
        | None \<Rightarrow> map_of tbl ip)"
proof (induction as arbitrary: tbl)
  case (Cons a as)
  have "agg_src_ip a = ip \<Longrightarrow> find (\<lambda>a. agg_src_ip a = ip) as = None"
    using Cons.prems by (simp add: find_None_iff) (metis image_eqI)
  with Cons show ?case
    by (auto simp: map_of_apply_aggregate stats_at_def split: option.splits)
qed simp

lemma agg_ok_scratch:
  assumes ok: "agg_ok w now es (index, scratch)"
  shows "distinct (map agg_src_ip scratch)"
    and "find (\<lambda>a. agg_src_ip a = ip) scratch = summary w now es ip"
proof -
  note idx = agg_okD(1)[OF ok]
  show "distinct (map agg_src_ip scratch)"
  proof (unfold distinct_conv_nth length_map, intro allI impI)
    fix i j assume "i < length scratch" "j < length scratch" "i \<noteq> j"
    then show "map agg_src_ip scratch ! i \<noteq> map agg_src_ip scratch ! j"
      using idx[of "agg_src_ip (scratch ! i)" i] idx[of "agg_src_ip (scratch ! i)" j] by auto
  qed
  show "find (\<lambda>a. agg_src_ip a = ip) scratch = summary w now es ip"
  proof (cases "find (\<lambda>a. agg_src_ip a = ip) scratch")
    case None
    then have "agg_src_ip (scratch ! i) \<noteq> ip" if "i < length scratch" for i
      using that by (auto simp: find_None_iff)
    then have "map_of index ip = None" using idx[of ip] by (cases "map_of index ip") auto
    with agg_okD(3)[OF ok] None show ?thesis by simp
  next
    case (Some a)
    then obtain i where "i < length scratch" "a = scratch ! i" "agg_src_ip a = ip"
      by (auto simp: find_Some_iff)
    with agg_okD(2)[OF ok, of i] Some show ?thesis by simp
  qed
qed

lemma reset_stale_current: "ip_generation s = g \<Longrightarrow> reset_stale w g now s = s"
  by (simp add: reset_stale_def)

lemma merge_generation [simp]: "ip_generation (merge_aggregate th g s a) = g"
  by (simp add: merge_aggregate_def Let_def)

lemma entry_snapshot:
  "entry_of (process_flow_snapshot es now t) ip =
     (let gen = next_generation (snapshot_generation t) in
      case summary (syn_window_ns t) now es ip of
        Some a \<Rightarrow> Some (merge_aggregate (syn_threshold t) gen (stats_at (ip_table t) ip) a)
      | None \<Rightarrow> map_option (reset_stale (syn_window_ns t) gen now) (entry_of t ip))"
proof -
  obtain index scratch where f: "foldl (aggregate_step (syn_window_ns t) now) ([], []) es = (index, scratch)"
    by (cases "foldl (aggregate_step (syn_window_ns t) now) ([], []) es")
  with agg_ok_fold[of "syn_window_ns t" now es] have ok: "agg_ok (syn_window_ns t) now es (index, scratch)"
    by simp
  show ?thesis
    by (simp add: process_flow_snapshot_def f Let_def entry_of_def map_of_map
        map_of_fold_aggregate[OF agg_ok_scratch(1)[OF ok]] agg_ok_scratch(2)[OF ok]
        reset_stale_current split: option.splits)
qed

lemma merge_blocked [simp]: "is_blocked (merge_aggregate th g s a) = is_blocked s"
  by (simp add: merge_aggregate_def Let_def)

lemma reset_blocked [simp]: "is_blocked (reset_stale w g now s) = is_blocked s"
  by (simp add: reset_stale_def)

lemma blocked_snapshot [simp]: "blocked_ips (process_flow_snapshot es now t) = blocked_ips t"
  by (auto simp: blocked_ips_entry entry_snapshot stats_at_entry ip_stats0_def Let_def
      split: option.splits if_splits)

section \<open>The contract \<open>cmd_top\<close> relies on\<close>

text \<open>
  What the dashboard loop needs of a tracker: events and snapshots leave the blocked set alone, a tick
  adds exactly the sources it reports, an expiry removes exactly those it reports.
\<close>

locale block_tracker =
  fixes inv :: "'t \<Rightarrow> bool" and blocked :: "'t \<Rightarrow> 'ip set" and observe :: "'e \<Rightarrow> 't \<Rightarrow> 't"
    and refresh :: "'s \<Rightarrow> u64 \<Rightarrow> 't \<Rightarrow> 't" and tick :: "u64 \<Rightarrow> 't \<Rightarrow> 'ip list \<times> 't"
    and expire :: "u64 \<Rightarrow> 't \<Rightarrow> 'ip list \<times> 't"
  assumes inv_observe: "inv t \<Longrightarrow> inv (observe e t)"
    and inv_refresh: "inv t \<Longrightarrow> inv (refresh es now t)"
    and inv_tick: "inv t \<Longrightarrow> inv (snd (tick now t))"
    and inv_expire: "inv t \<Longrightarrow> inv (snd (expire now t))"
    and observe_blocked: "inv t \<Longrightarrow> blocked (observe e t) = blocked t"
    and refresh_blocked: "inv t \<Longrightarrow> blocked (refresh es now t) = blocked t"
    and tick_blocked: "inv t \<Longrightarrow> blocked (snd (tick now t)) = blocked t \<union> set (fst (tick now t))"
    and tick_fresh: "inv t \<Longrightarrow> set (fst (tick now t)) \<inter> blocked t = {}"
    and tick_distinct: "inv t \<Longrightarrow> distinct (fst (tick now t))"
    and expire_blocked: "inv t \<Longrightarrow> blocked (snd (expire now t)) = blocked t - set (fst (expire now t))"
    and expire_held: "inv t \<Longrightarrow> set (fst (expire now t)) \<subseteq> blocked t"
    and expire_distinct: "inv t \<Longrightarrow> distinct (fst (expire now t))"
begin

lemma round_blocked:
  assumes "inv t" "tick now t = (bs, t1)" "expire now t1 = (us, t2)"
  shows "inv t2" "blocked t2 = (blocked t \<union> set bs) - set us" "set us \<subseteq> blocked t \<union> set bs"
  using assms inv_tick[of t now] tick_blocked[of t now] inv_expire[of t1 now]
    expire_blocked[of t1 now] expire_held[of t1 now] by auto

end

interpretation tracker: block_tracker tracker_inv blocked_ips process_event process_flow_snapshot
  tick_and_get_blocks get_expired_blocks
  by unfold_locales
    (auto simp: blocked_tick blocked_expire tick_output_distinct expire_output_distinct
      dest: blocked_tick(2) blocked_expire(2))

section \<open>Runs\<close>

datatype tracker_op =
    OpEvent kwatch_event
  | OpSnapshot "flow_map_entry list" u64
  | OpTick u64
  | OpExpire u64

datatype block_report = Blocked "u32 list" | Unblocked "u32 list"

fun tracker_step :: "flow_tracker \<Rightarrow> tracker_op \<Rightarrow> block_report list \<times> flow_tracker" where
  "tracker_step t (OpEvent e) = ([], process_event e t)"
| "tracker_step t (OpSnapshot es now) = ([], process_flow_snapshot es now t)"
| "tracker_step t (OpTick now) = (let (bs, t') = tick_and_get_blocks now t in ([Blocked bs], t'))"
| "tracker_step t (OpExpire now) = (let (us, t') = get_expired_blocks now t in ([Unblocked us], t'))"

fun tracker_run :: "flow_tracker \<Rightarrow> tracker_op list \<Rightarrow> block_report list \<times> flow_tracker" where
  "tracker_run t [] = ([], t)"
| "tracker_run t (x # xs) =
     (let (r, t1) = tracker_step t x; (rs, t2) = tracker_run t1 xs in (r @ rs, t2))"

text \<open>
  A monitor of the reports: a source may be reported as blocked only while it is not blocked, and as
  unblocked only while it is. \<open>None\<close> is a violation, \<open>Some B\<close> the set blocked at the end.
\<close>

fun monitor :: "u32 set \<Rightarrow> block_report list \<Rightarrow> u32 set option" where
  "monitor B [] = Some B"
| "monitor B (Blocked xs # rs) =
     (if distinct xs \<and> set xs \<inter> B = {} then monitor (B \<union> set xs) rs else None)"
| "monitor B (Unblocked xs # rs) =
     (if distinct xs \<and> set xs \<subseteq> B then monitor (B - set xs) rs else None)"

inductive tracker_reachable :: "flow_tracker \<Rightarrow> flow_tracker \<Rightarrow> bool" for t0 where
  start: "tracker_reachable t0 t0"
| step: "tracker_reachable t0 t \<Longrightarrow> tracker_reachable t0 (snd (tracker_step t x))"

lemma monitor_append:
  "monitor B (rs @ ss) = Option.bind (monitor B rs) (\<lambda>C. monitor C ss)"
  by (induction B rs rule: monitor.induct) auto

lemma tracker_step_monitor:
  assumes inv: "tracker_inv t" and st: "tracker_step t x = (rs, t')"
  shows "tracker_inv t' \<and> monitor (blocked_ips t) rs = Some (blocked_ips t')"
proof (cases x)
  case (OpTick now)
  then have "rs = [Blocked (fst (tick_and_get_blocks now t))]" "t' = snd (tick_and_get_blocks now t)"
    using st by (auto split: prod.splits)
  then show ?thesis
    using tracker.tick_blocked[OF inv] tracker.tick_fresh[OF inv] tracker.tick_distinct[OF inv]
      tracker_inv_tick[OF inv] by simp
next
  case (OpExpire now)
  then have "rs = [Unblocked (fst (get_expired_blocks now t))]" "t' = snd (get_expired_blocks now t)"
    using st by (auto split: prod.splits)
  then show ?thesis
    using tracker.expire_blocked[OF inv] tracker.expire_held[OF inv] tracker.expire_distinct[OF inv]
      tracker_inv_expire[OF inv] by simp
qed (use inv st in auto)

lemma tracker_run_monitor:
  "tracker_inv t \<Longrightarrow> tracker_run t xs = (rs, t') \<Longrightarrow>
     tracker_inv t' \<and> monitor (blocked_ips t) rs = Some (blocked_ips t')"
proof (induction xs arbitrary: t rs)
  case (Cons x xs)
  obtain r t1 where s: "tracker_step t x = (r, t1)" by (cases "tracker_step t x")
  obtain qs t2 where q: "tracker_run t1 xs = (qs, t2)" by (cases "tracker_run t1 xs")
  from tracker_step_monitor[OF Cons.prems(1) s] have "tracker_inv t1"
    "monitor (blocked_ips t) r = Some (blocked_ips t1)" by simp_all
  with Cons.IH[of t1 qs] Cons.prems(2) s q show ?case by (auto simp: monitor_append)
qed simp

text \<open>Fields no operation writes.\<close>

lemma tracker_step_config [simp]:
  "syn_threshold (snd (tracker_step t x)) = syn_threshold t"
  "syn_window_ns (snd (tracker_step t x)) = syn_window_ns t"
  "auto_block_enabled (snd (tracker_step t x)) = auto_block_enabled t"
  "auto_block_ttl_ns (snd (tracker_step t x)) = auto_block_ttl_ns t"
  by (cases x; simp add: process_event_def process_flow_snapshot_def tick_and_get_blocks_def
      evict_idle_def get_expired_blocks_def Let_def split: prod.splits)+

lemma reachable_inv: "tracker_reachable t0 t \<Longrightarrow> tracker_inv t0 \<Longrightarrow> tracker_inv t"
proof (induction rule: tracker_reachable.induct)
  case (step t x)
  then show ?case using tracker_step_monitor[of t x] by (cases "tracker_step t x") auto
qed

lemma reachable_config:
  "tracker_reachable t0 t \<Longrightarrow> syn_threshold t = syn_threshold t0 \<and> syn_window_ns t = syn_window_ns t0 \<and>
     auto_block_enabled t = auto_block_enabled t0 \<and> auto_block_ttl_ns t = auto_block_ttl_ns t0"
  by (induction rule: tracker_reachable.induct) simp_all

lemma blocked_auto: "tracker_inv t \<Longrightarrow> \<not> auto_block_enabled t \<Longrightarrow> blocked_ips t = {}"
  by (auto simp: blocked_ips_def tracker_inv_def list_all_iff dest!: map_of_SomeD)

section \<open>Properties\<close>

lemma flag_after_merge:
  "is_flagged (merge_aggregate th g s a) \<longleftrightarrow>
     is_flagged s \<or> th \<le> unmatched_syns (agg_syn_count a) (agg_ack_count a)"
  by (simp add: merge_aggregate_def Let_def)

lemma unat_unmatched: "unat (unmatched_syns s a) = unat s - unat a"
  by (auto simp: unmatched_syns_def word_less_nat_alt unat_sub word_le_nat_alt)

lemma counts_after_merge [simp]:
  "ip_syn_count (merge_aggregate th g s a) = agg_syn_count a"
  "ip_ack_count (merge_aggregate th g s a) = agg_ack_count a"
  by (simp_all add: merge_aggregate_def Let_def)

lemma snapshot_entry:
  assumes "cs = counted (syn_window_ns t) now es ip" "cs \<noteq> []"
    and "syns = (\<Sum>en\<leftarrow>cs. unat (syn_count (fe_stats en)))" "syns < 2 ^ 32"
    and "acks = (\<Sum>en\<leftarrow>cs. unat (ack_count (fe_stats en)))" "acks < 2 ^ 32"
  shows "\<exists>s. map_of (ip_table (process_flow_snapshot es now t)) ip = Some s \<and>
    unat (ip_syn_count s) = syns \<and> unat (ip_ack_count s) = acks \<and>
    (is_flagged s \<longleftrightarrow> is_flagged (stats_at (ip_table t) ip) \<or> unat (syn_threshold t) \<le> syns - acks)"
proof -
  let ?a = "\<lparr>agg_src_ip = ip, agg_syn_count = syn_total cs, agg_ack_count = ack_total cs,
      agg_last_seen_ns = last_seen_max cs\<rparr>"
  have "summary (syn_window_ns t) now es ip = Some ?a" using assms(1,2) by (simp add: summary_def Let_def)
  then have "entry_of (process_flow_snapshot es now t) ip = Some (merge_aggregate (syn_threshold t)
      (next_generation (snapshot_generation t)) (stats_at (ip_table t) ip) ?a)"
    by (simp add: entry_snapshot Let_def)
  moreover have "unat (syn_total cs) = syns" "unat (ack_total cs) = acks"
    using assms(3-) unat_sum_list[of "map (syn_count \<circ> fe_stats) cs"] unat_sum_list[of "map (ack_count \<circ> fe_stats) cs"]
    by (simp_all add: syn_total_def ack_total_def comp_def)
  ultimately show ?thesis
    by (simp add: flag_after_merge unat_unmatched entry_of_def word_le_nat_alt)
qed

text \<open>With automatic blocking off nothing is ever reported.\<close>

lemma quiet_step:
  assumes "tracker_inv t" "\<not> auto_block_enabled t" "r \<in> set (fst (tracker_step t x))"
  shows "r = Blocked [] \<or> r = Unblocked []"
  using assms tick_output_set[OF assms(1)] tracker.expire_held[OF assms(1)] blocked_auto[OF assms(1,2)]
  by (cases x) (auto simp: to_be_blocked_def case_prod_beta)

lemma quiet_reports:
  "tracker_run t ops = (rs, t') \<Longrightarrow> r \<in> set rs \<Longrightarrow> tracker_inv t \<Longrightarrow> \<not> auto_block_enabled t \<Longrightarrow>
     r = Blocked [] \<or> r = Unblocked []"
proof (induction ops arbitrary: t rs)
  case (Cons x xs)
  obtain q t1 where s: "tracker_step t x = (q, t1)" by (cases "tracker_step t x")
  obtain qs t2 where run: "tracker_run t1 xs = (qs, t2)" by (cases "tracker_run t1 xs")
  have "tracker_inv t1" "\<not> auto_block_enabled t1"
    using tracker_step_monitor[OF Cons.prems(3) s] tracker_step_config(3)[of t x] s Cons.prems(4) by simp_all
  with Cons s run quiet_step[of t r x] show ?case by auto
qed simp

definition flood_entry :: flow_map_entry where
  "flood_entry = \<lparr>fe_key = \<lparr>fk_src_ip = 0x01010101, fk_dst_ip = 0, fk_sport = 0, fk_dport = 0, fk_protocol = 6\<rparr>,
     fe_stats = \<lparr>syn_count = 2, ack_count = 0, first_seen_ns = 0, last_seen_ns = 2000000000\<rparr>\<rparr>"

definition flooded :: flow_tracker where
  "flooded = process_flow_snapshot [flood_entry] 2000000000 (FlowTracker 2 10 True 300)"

lemmas flood_simps = flood_entry_def FlowTracker_def counted_def entry_skipped_def stats_at_def ip_stats0_def

lemma counted_flood:
  "counted (syn_window_ns (FlowTracker 2 10 True 300)) 2000000000 [flood_entry] 0x01010101 = [flood_entry]"
  by (simp add: flood_simps)

lemma flooded_reachable: "tracker_reachable (FlowTracker 2 10 True 300) flooded"
  unfolding flooded_def
  using tracker_reachable.step[OF tracker_reachable.start, of _ "OpSnapshot [flood_entry] 2000000000"]
  by simp

lemma flooded_inv: "tracker_inv flooded"
  by (rule reachable_inv[OF flooded_reachable]) simp

lemma flooded_entry:
  "entry_of flooded 0x01010101 = Some \<lparr>ip_syn_count = 2, ip_ack_count = 0, last_event_ns = 2000000000,
     block_start_ns = 0, ip_generation = 1, is_flagged = True, is_blocked = False, last_ttl = 0\<rparr>"
  by (simp add: flooded_def entry_snapshot summary_def Let_def counted_flood)
    (simp add: flood_simps merge_aggregate_def unmatched_syns_def next_generation_def Let_def
      syn_total_def ack_total_def last_seen_max_def)

lemma tick_flooded: "0x01010101 \<in> set (fst (tick_and_get_blocks now flooded))"
  using reachable_config[OF flooded_reachable]
  by (simp add: tick_output_set[OF flooded_inv] flooded_entry to_be_blocked_def FlowTracker_def)

text \<open>
  Property C6. After a flow snapshot, a source with at least one counted flow entry
  (TCP, seen within the window, started within the window) carries exactly the sums of the SYN and
  ACK counters of its entries, and it is flagged exactly when it was flagged before or its unmatched
  SYNs reach the threshold, as long as the two sums fit 32 bits.
\<close>

theorem snapshot_detects:
  assumes "cs = counted (syn_window_ns t) now es ip" "cs \<noteq> []"
    and "syns = (\<Sum>en\<leftarrow>cs. unat (syn_count (fe_stats en)))" "syns < 2 ^ 32"
    and "acks = (\<Sum>en\<leftarrow>cs. unat (ack_count (fe_stats en)))" "acks < 2 ^ 32"
  shows "\<exists>s. map_of (ip_table (process_flow_snapshot es now t)) ip = Some s \<and>
    unat (ip_syn_count s) = syns \<and> unat (ip_ack_count s) = acks \<and>
    (is_flagged s \<longleftrightarrow> is_flagged (stats_at (ip_table t) ip) \<or> unat (syn_threshold t) \<le> syns - acks)"
  using assms by (rule snapshot_entry)

theorem snapshot_detects_witness:
  "\<exists>s. map_of (ip_table (process_flow_snapshot [flood_entry] 2000000000 (FlowTracker 2 10 True 300)))
         0x01010101 = Some s \<and> unat (ip_syn_count s) = 2 \<and> is_flagged s"
  using snapshot_detects[OF counted_flood[symmetric] _ refl _ refl]
  by (auto simp: flood_simps)

text \<open>
  Property C8. In every state the tracker can reach, a tick reports, without
  repetition, exactly the sources that are flagged and not yet blocked when automatic blocking is on
  (none when it is off), and each of them is then held as blocked from the time of the tick.
\<close>

theorem tick_blocks_flagged:
  assumes "tracker_reachable (FlowTracker th w a bt) t" "tick_and_get_blocks now t = (bs, t')"
  shows "distinct bs \<and>
    set bs = {ip. a \<and> (\<exists>s. map_of (ip_table t) ip = Some s \<and> is_flagged s \<and> \<not> is_blocked s)} \<and>
    (\<forall>ip \<in> set bs. \<exists>s. map_of (ip_table t') ip = Some s \<and> is_blocked s \<and> block_start_ns s = now)"
proof (intro conjI)
  have inv: "tracker_inv t" using assms(1) by (rule reachable_inv) simp
  have a: "auto_block_enabled t = a"
    using reachable_config[OF assms(1)] by (simp add: FlowTracker_def)
  have out: "bs = fst (tick_and_get_blocks now t)" "t' = snd (tick_and_get_blocks now t)"
    using assms(2) by simp_all
  show "distinct bs" unfolding out by (rule tick_output_distinct[OF inv])
  show "set bs = {ip. a \<and> (\<exists>s. map_of (ip_table t) ip = Some s \<and> is_flagged s \<and> \<not> is_blocked s)}"
    unfolding out tick_output_set[OF inv] using a by (auto simp: to_be_blocked_def entry_of_def)
  show "\<forall>ip \<in> set bs. \<exists>s. map_of (ip_table t') ip = Some s \<and> is_blocked s \<and> block_start_ns s = now"
    unfolding out tick_output_set[OF inv] using entry_tick[OF inv, of now] by (auto simp: entry_of_def)
qed

theorem tick_blocks_flagged_witness:
  "0x01010101 \<in> set (fst (tick_and_get_blocks 2000000000 flooded)) \<and>
   (\<exists>s. map_of (ip_table (snd (tick_and_get_blocks 2000000000 flooded))) 0x01010101 = Some s \<and> is_blocked s)"
  using tick_blocks_flagged[OF flooded_reachable prod.collapse[symmetric], of 2000000000] tick_flooded
  by blast

text \<open>
  Property C7. Over any sequence of events, snapshots, ticks and expiry checks
  from a new tracker, the reports are consistent: a source is reported for blocking only while it is
  not blocked, for unblocking only while it is, never twice in one report, and the sources reported as
  blocked and not yet as unblocked are exactly those the tracker holds as blocked.
\<close>

theorem reports_alternate:
  "monitor {} (fst (tracker_run (FlowTracker th w a bt) ops)) =
     Some (blocked_ips (snd (tracker_run (FlowTracker th w a bt) ops)))"
proof -
  have "blocked_ips (FlowTracker th w a bt) = {}" by (simp add: blocked_ips_def FlowTracker_def)
  then show ?thesis using tracker_run_monitor[of "FlowTracker th w a bt" ops]
    by (cases "tracker_run (FlowTracker th w a bt) ops") auto
qed

text \<open>A block is kept by every operation but an expiry check at or after its deadline.\<close>

definition block_held :: "u32 \<Rightarrow> u64 \<Rightarrow> flow_tracker \<Rightarrow> bool" where
  "block_held ip start t \<longleftrightarrow>
     tracker_inv t \<and> (\<exists>s. entry_of t ip = Some s \<and> is_blocked s \<and> block_start_ns s = start)"

definition expires_before :: "u64 \<Rightarrow> tracker_op \<Rightarrow> bool" where
  "expires_before deadline x = (case x of OpExpire n \<Rightarrow> n < deadline | _ \<Rightarrow> True)"

lemma start_kept [simp]:
  "block_start_ns (touch_stats e s) = block_start_ns s"
  "block_start_ns (merge_aggregate th g s a) = block_start_ns s"
  "block_start_ns (reset_stale w g now s) = block_start_ns s"
  by (simp_all add: touch_stats_def merge_aggregate_def reset_stale_def Let_def)

lemma block_held_step:
  assumes "block_held ip start t" "expires_before (start + auto_block_ttl_ns t) x"
  shows "block_held ip start (snd (tracker_step t x))"
proof -
  have inv: "tracker_inv t" using assms(1) by (simp add: block_held_def)
  then have inv': "tracker_inv (snd (tracker_step t x))"
    using tracker_step_monitor[OF inv, of x] by (cases "tracker_step t x") auto
  show ?thesis
  proof (cases x)
    case (OpTick n)
    then show ?thesis using assms(1) inv' entry_tick[OF inv, of n ip]
      by (auto simp: block_held_def to_be_blocked_def split: prod.splits)
  next
    case (OpExpire n)
    then show ?thesis using assms inv' entry_expire[of n t ip]
      by (auto simp: block_held_def expires_before_def block_expired_def split: prod.splits)
  qed (use assms inv' in \<open>auto simp: block_held_def entry_process_event entry_snapshot stats_at_entry
      Let_def split: option.splits\<close>)
qed

lemma block_held_run:
  "block_held ip start t \<Longrightarrow> list_all (expires_before (start + auto_block_ttl_ns t)) ops \<Longrightarrow>
     block_held ip start (snd (tracker_run t ops)) \<and>
     auto_block_ttl_ns (snd (tracker_run t ops)) = auto_block_ttl_ns t"
proof (induction ops arbitrary: t)
  case (Cons x xs)
  from block_held_step[of ip start t x] Cons.prems
  have "block_held ip start (snd (tracker_step t x))" by simp
  with Cons.IH[of "snd (tracker_step t x)"] Cons.prems(2) tracker_step_config(4)[of t x]
  show ?case by (auto simp: split: prod.splits)
qed simp

text \<open>
  Property C9. A source that a tick at time \<open>now\<close> reports stays blocked through any
  further operations as long as expiry is checked only before \<open>now\<close> plus the configured number of
  seconds, and the first expiry check at or after that time reports it and lifts the block; the
  deadline is computed without wrap-around whenever it lies below \<open>2 ^ 64\<close> nanoseconds.
\<close>

theorem block_lasts_ttl:
  assumes "tracker_reachable (FlowTracker th w a bt) t" "tick_and_get_blocks now t = (bs, t1)" "ip \<in> set bs"
    and "deadline = unat now + unat bt * 10 ^ 9" "deadline < 2 ^ 64"
    and "\<forall>x \<in> set ops. \<forall>n. x = OpExpire n \<longrightarrow> unat n < deadline"
    and "t2 = snd (tracker_run t1 ops)"
  shows "ip \<in> blocked_ips t2 \<and>
    (\<forall>n. (ip \<in> set (fst (get_expired_blocks n t2)) \<longleftrightarrow> deadline \<le> unat n) \<and>
         (ip \<in> blocked_ips (snd (get_expired_blocks n t2)) \<longleftrightarrow> unat n < deadline))"
proof -
  have inv: "tracker_inv t" using assms(1) by (rule reachable_inv) simp
  have t1: "t1 = snd (tick_and_get_blocks now t)" "bs = fst (tick_and_get_blocks now t)"
    using assms(2) by simp_all
  have ttl: "auto_block_ttl_ns t1 = ucast bt * ns_per_s"
    using reachable_config[OF assms(1)] tracker_step_config(4)[of t "OpTick now"] t1
    by (simp add: FlowTracker_def split: prod.splits)
  have dl: "unat (now + ucast bt * ns_per_s) = deadline"
    using assms(4,5) unat_seconds[of bt] by (simp add: unat_word_ariths)
  have "block_held ip now t1"
    using assms(3) inv entry_tick[OF inv, of now ip] tracker_inv_tick[OF inv, of now]
    unfolding t1 tick_output_set[OF inv] by (auto simp: block_held_def)
  moreover have "list_all (expires_before (now + auto_block_ttl_ns t1)) ops"
    using assms(6) dl ttl by (auto simp: list_all_iff expires_before_def word_less_nat_alt split: tracker_op.splits)
  ultimately have held: "block_held ip now t2" and ttl2: "auto_block_ttl_ns t2 = ucast bt * ns_per_s"
    using block_held_run[of ip now t1 ops] ttl assms(7) by simp_all
  then obtain s where s: "entry_of t2 ip = Some s" "is_blocked s" "block_start_ns s = now" "tracker_inv t2"
    by (auto simp: block_held_def)
  have ex: "block_expired t2 n s \<longleftrightarrow> deadline \<le> unat n" for n
    using s ttl2 dl by (simp add: block_expired_def word_le_nat_alt)
  show ?thesis
    using s ex by (auto simp: blocked_ips_entry expire_output_set[OF s(4)] entry_expire)
qed

theorem block_lasts_ttl_witness:
  "0x01010101 \<in> blocked_ips (snd (tick_and_get_blocks 2000000000 flooded)) \<and>
   0x01010101 \<in> set (fst (get_expired_blocks 302000000000 (snd (tick_and_get_blocks 2000000000 flooded)))) \<and>
   0x01010101 \<notin> set (fst (get_expired_blocks 301999999999 (snd (tick_and_get_blocks 2000000000 flooded))))"
  using block_lasts_ttl[OF flooded_reachable prod.collapse[symmetric] tick_flooded refl, of _ "[]"]
  by simp

text \<open>
  Without \<open>--auto-block\<close> the tracker never asks for a block or an unblock,
  whatever it observes.
\<close>

theorem no_auto_block:
  assumes "tracker_run (FlowTracker th w False bt) ops = (rs, t)" "r \<in> set rs"
  shows "r = Blocked [] \<or> r = Unblocked []"
  using assms by (rule quiet_reports) (simp, simp add: FlowTracker_def)

theorem no_auto_block_witness:
  "fst (tracker_run (FlowTracker 2 10 False 300) [OpSnapshot [flood_entry] 2000000000, OpTick 2000000000]) =
     [Blocked []]"
proof -
  let ?run = "tracker_run (FlowTracker 2 10 False 300) [OpSnapshot [flood_entry] 2000000000, OpTick 2000000000]"
  obtain bs where bs: "fst ?run = [Blocked bs]" by (auto simp: case_prod_beta)
  then have "Blocked bs = Blocked [] \<or> Blocked bs = Unblocked []"
    by (intro no_auto_block[OF prod.collapse[symmetric], of "Blocked bs" 2 10 300 "[OpSnapshot [flood_entry] 2000000000, OpTick 2000000000]"]) simp
  with bs show ?thesis by simp
qed

end
