(* ===== verification/KW_Xdp.thy ===== *)
theory KW_Xdp
  imports KW_Event "HOL-Library.Monad_Syntax"
begin

text \<open>
  \<open>bpf/kwatch.bpf.c\<close>: the XDP program. A packet is the list of bytes between \<open>ctx->data\<close> and
  \<open>ctx->data_end\<close>, a pointer into it an offset, and a load outside it the value \<open>None\<close> of the option
  monad, so memory safety is a theorem. Packet words are loaded in the byte order of a little-endian
  machine and swapped by \<open>bpf_ntohs\<close> where the source does. The maps are partial functions. What the
  kernel does is a parameter: \<open>bpf_kernel\<close> holds the CO-RE facts and the map helpers whose code is not
  part of the program, \<open>bpf_inputs\<close> what one run reads from helpers (the random number, the two clock
  readings, whether the ring buffer has room). The documented behaviour of the map helpers is stated
  by the predicates \<open>lpm_law\<close>, \<open>hash_law\<close> and \<open>lru_law\<close>. Not modelled: the \<open>pps_window\<close> map, which
  no code of the program uses.
\<close>

section \<open>State and kernel\<close>

type_synonym lpm_key = "u32 \<times> u32"

record xdp_state =
  blacklist :: "lpm_key \<rightharpoonup> u8"
  flow_state :: "kwatch_flow_key \<rightharpoonup> kwatch_flow_stats"
  events :: "kwatch_event list"
  ringbuf_drops :: "u32 \<rightharpoonup> u64"
  pkt_counts :: "u32 \<rightharpoonup> u64"

record bpf_kernel =
  core_data_exists :: bool
  core_data_end_exists :: bool
  lpm_lookup :: "(lpm_key \<rightharpoonup> u8) \<Rightarrow> lpm_key \<Rightarrow> u8 option"
  pkt_counts_noexist :: "(u32 \<rightharpoonup> u64) \<Rightarrow> u32 \<Rightarrow> u64 \<Rightarrow> (u32 \<rightharpoonup> u64)"
  flow_state_noexist ::
    "(kwatch_flow_key \<rightharpoonup> kwatch_flow_stats) \<Rightarrow> kwatch_flow_key \<Rightarrow> kwatch_flow_stats
     \<Rightarrow> (kwatch_flow_key \<rightharpoonup> kwatch_flow_stats)"

record bpf_inputs =
  prandom_u32 :: u32
  ktime_flow :: u64
  ktime_event :: u64
  ringbuf_room :: bool

datatype xdp_action = XDP_ABORTED | XDP_DROP | XDP_PASS

text \<open>What the kernel documents of the map types.\<close>

definition lpm_law :: "bpf_kernel \<Rightarrow> bool" where
  "lpm_law k \<longleftrightarrow> (\<forall>bl a. lpm_lookup k bl (32, a) \<noteq> None \<longleftrightarrow>
     (\<exists>n p. (n, p) \<in> dom bl \<and> lpm_match (unat n) p a))"

definition hash_law :: "nat \<Rightarrow> (('k \<rightharpoonup> 'v) \<Rightarrow> 'k \<Rightarrow> 'v \<Rightarrow> ('k \<rightharpoonup> 'v)) \<Rightarrow> bool" where
  "hash_law n upd \<longleftrightarrow>
     (\<forall>m q v. upd m q v = (if m q = None \<and> card (dom m) < n then m(q \<mapsto> v) else m))"

definition lru_law :: "(('k \<rightharpoonup> 'v) \<Rightarrow> 'k \<Rightarrow> 'v \<Rightarrow> ('k \<rightharpoonup> 'v)) \<Rightarrow> bool" where
  "lru_law upd \<longleftrightarrow>
     (\<forall>m q v. m q = None \<longrightarrow> upd m q v q = Some v \<and> (\<forall>r. r \<noteq> q \<longrightarrow> upd m q v r \<in> {m r, None}))"

section \<open>The program\<close>

definition ETH_P_IP :: u16 where "ETH_P_IP = 0x0800"
definition ETH_P_IPV6 :: u16 where "ETH_P_IPV6 = 0x86DD"
definition ETH_P_ARP :: u16 where "ETH_P_ARP = 0x0806"
definition ETH_P_8021Q :: u16 where "ETH_P_8021Q = 0x8100"
definition ETH_P_8021AD :: u16 where "ETH_P_8021AD = 0x88A8"

lemmas eth_defs = ETH_P_IP_def ETH_P_IPV6_def ETH_P_ARP_def ETH_P_8021Q_def ETH_P_8021AD_def

text \<open>Loads of one, two and four bytes at an offset of the packet.\<close>

definition rd8 :: "u8 list \<Rightarrow> nat \<Rightarrow> u8 option" where
  "rd8 pkt i = (if i + 1 \<le> length pkt then Some (pkt ! i) else None)"

definition rd16 :: "u8 list \<Rightarrow> nat \<Rightarrow> u16 option" where
  "rd16 pkt i = (if i + 2 \<le> length pkt then Some (load16 pkt i) else None)"

definition rd32 :: "u8 list \<Rightarrow> nat \<Rightarrow> u32 option" where
  "rd32 pkt i = (if i + 4 \<le> length pkt then Some (load32 pkt i) else None)"

definition inc_count :: "bpf_kernel \<Rightarrow> u32 \<Rightarrow> xdp_state \<Rightarrow> xdp_state" where
  "inc_count k proto st =
     (case pkt_counts st proto of
        Some cnt \<Rightarrow> st\<lparr>pkt_counts := (pkt_counts st)(proto \<mapsto> cnt + 1)\<rparr>
      | None \<Rightarrow> st\<lparr>pkt_counts := pkt_counts_noexist k (pkt_counts st) proto 1\<rparr>)"

definition inc_ringbuf_drop :: "xdp_state \<Rightarrow> xdp_state" where
  "inc_ringbuf_drop st =
     (case ringbuf_drops st 0 of
        Some cnt \<Rightarrow> st\<lparr>ringbuf_drops := (ringbuf_drops st)(0 \<mapsto> cnt + 1)\<rparr>
      | None \<Rightarrow> st)"

text \<open>The L4 part of the event, by protocol; a short L4 header leaves the fields at zero.\<close>

definition event_l4 :: "u8 list \<Rightarrow> nat \<Rightarrow> u8 \<Rightarrow> kwatch_event \<Rightarrow> kwatch_event option" where
  "event_l4 pkt l4 proto e =
     (if proto = 6 then
        if l4 + 20 \<le> length pkt then do {
          s \<leftarrow> rd16 pkt l4; d \<leftarrow> rd16 pkt (l4 + 2); f \<leftarrow> rd8 pkt (l4 + 13);
          Some (e\<lparr>sport := ntohs s, dport := ntohs d, tcp_flags := f\<rparr>)
        } else Some e
      else if proto = 17 then
        if l4 + 8 \<le> length pkt then do {
          s \<leftarrow> rd16 pkt l4; d \<leftarrow> rd16 pkt (l4 + 2);
          Some (e\<lparr>sport := ntohs s, dport := ntohs d\<rparr>)
        } else Some e
      else if proto = 1 then
        if l4 + 8 \<le> length pkt then do {
          t \<leftarrow> rd8 pkt l4; c \<leftarrow> rd8 pkt (l4 + 1);
          Some (e\<lparr>icmp_type := t, icmp_code := c\<rparr>)
        } else Some e
      else Some e)"

definition emit_event ::
    "kwatch_runtime_config \<Rightarrow> bpf_inputs \<Rightarrow> u8 list \<Rightarrow> nat \<Rightarrow> u32 \<Rightarrow> u32 \<Rightarrow> u8 \<Rightarrow> u8 \<Rightarrow> u8 \<Rightarrow> bool
     \<Rightarrow> xdp_state \<Rightarrow> xdp_state option" where
  "emit_event cfg i pkt l4 src dst proto ip_ttl act is_new st =
     (if \<not> kwatch_should_emit_event (cfg_sample_n cfg) (prandom_u32 i) is_new then Some st
      else if \<not> ringbuf_room i then Some (inc_ringbuf_drop st)
      else do {
        e \<leftarrow> event_l4 pkt l4 proto
              \<lparr>ts_ns = ktime_event i, src_ip = src, dst_ip = dst, sport = 0, dport = 0,
               protocol = proto, tcp_flags = 0, ttl = ip_ttl, action = act, icmp_type = 0, icmp_code = 0\<rparr>;
        Some (st\<lparr>events := events st @ [e]\<rparr>)
      })"

definition flow_l4 :: "u8 list \<Rightarrow> nat \<Rightarrow> u8 \<Rightarrow> kwatch_flow_key \<Rightarrow> (kwatch_flow_key \<times> u8) option" where
  "flow_l4 pkt l4 proto fkey =
     (if proto = 6 then
        if l4 + 20 \<le> length pkt then do {
          s \<leftarrow> rd16 pkt l4; d \<leftarrow> rd16 pkt (l4 + 2); f \<leftarrow> rd8 pkt (l4 + 13);
          Some (fkey\<lparr>fk_sport := ntohs s, fk_dport := ntohs d\<rparr>, f)
        } else Some (fkey, 0)
      else if proto = 17 then
        if l4 + 8 \<le> length pkt then do {
          s \<leftarrow> rd16 pkt l4; d \<leftarrow> rd16 pkt (l4 + 2);
          Some (fkey\<lparr>fk_sport := ntohs s, fk_dport := ntohs d\<rparr>, 0)
        } else Some (fkey, 0)
      else Some (fkey, 0))"

definition new_flow_stats :: "u64 \<Rightarrow> u8 \<Rightarrow> kwatch_flow_stats" where
  "new_flow_stats now_ns flags =
     \<lparr>syn_count = (if flags AND 0x02 \<noteq> 0 then 1 else 0),
      ack_count = (if flags AND 0x10 \<noteq> 0 then 1 else 0),
      first_seen_ns = now_ns, last_seen_ns = now_ns\<rparr>"

definition touch_flow_stats :: "u64 \<Rightarrow> u64 \<Rightarrow> u8 \<Rightarrow> kwatch_flow_stats \<Rightarrow> kwatch_flow_stats" where
  "touch_flow_stats window now_ns flags s =
     (let s1 = (if window > 0 \<and> now_ns > first_seen_ns s \<and> now_ns - first_seen_ns s > window
                then s\<lparr>first_seen_ns := now_ns, syn_count := 0, ack_count := 0\<rparr> else s);
          s2 = s1\<lparr>last_seen_ns := now_ns\<rparr>;
          s3 = (if flags AND 0x02 \<noteq> 0 then s2\<lparr>syn_count := syn_count s2 + 1\<rparr> else s2)
      in if flags AND 0x10 \<noteq> 0 then s3\<lparr>ack_count := ack_count s3 + 1\<rparr> else s3)"

text \<open>The flow table step: the new state and \<open>is_new\<close>.\<close>

definition track_flow ::
    "bpf_kernel \<Rightarrow> kwatch_runtime_config \<Rightarrow> u64 \<Rightarrow> kwatch_flow_key \<Rightarrow> u8 \<Rightarrow> xdp_state \<Rightarrow> xdp_state \<times> bool" where
  "track_flow k cfg now_ns fkey flags st =
     (case flow_state st fkey of
        None \<Rightarrow>
          (st\<lparr>flow_state := flow_state_noexist k (flow_state st) fkey (new_flow_stats now_ns flags)\<rparr>, True)
      | Some s \<Rightarrow>
          (st\<lparr>flow_state := (flow_state st)(fkey \<mapsto> touch_flow_stats (cfg_syn_window_ns cfg) now_ns flags s)\<rparr>,
           False))"

text \<open>The part of the program after the IPv4 header is accepted.\<close>

definition xdp_ipv4 ::
    "bpf_kernel \<Rightarrow> kwatch_runtime_config \<Rightarrow> bpf_inputs \<Rightarrow> u8 list \<Rightarrow> nat \<Rightarrow> nat \<Rightarrow> xdp_state
     \<Rightarrow> (xdp_action \<times> xdp_state) option" where
  "xdp_ipv4 k cfg i pkt ip l4 st = do {
     proto \<leftarrow> rd8 pkt (ip + 9);
     src \<leftarrow> rd32 pkt (ip + 12);
     dst \<leftarrow> rd32 pkt (ip + 16);
     if lpm_lookup k (blacklist st) (32, src) \<noteq> None then do {
       let st1 = inc_count k 0xFFFF st;
       ip_ttl \<leftarrow> rd8 pkt (ip + 8);
       st2 \<leftarrow> emit_event cfg i pkt l4 src dst proto ip_ttl 1 True st1;
       Some (XDP_DROP, st2)
     } else do {
       let st1 = inc_count k (ucast proto) st;
       (fkey, flags) \<leftarrow> flow_l4 pkt l4 proto
          \<lparr>fk_src_ip = src, fk_dst_ip = dst, fk_sport = 0, fk_dport = 0, fk_protocol = proto\<rparr>;
       let (st2, is_new) = track_flow k cfg (ktime_flow i) fkey flags st1;
       ip_ttl \<leftarrow> rd8 pkt (ip + 8);
       st3 \<leftarrow> emit_event cfg i pkt l4 src dst proto ip_ttl 0 is_new st2;
       Some (XDP_PASS, st3)
     }
   }"

definition xdp_l3 ::
    "bpf_kernel \<Rightarrow> kwatch_runtime_config \<Rightarrow> bpf_inputs \<Rightarrow> u8 list \<Rightarrow> u16 \<Rightarrow> nat \<Rightarrow> xdp_state
     \<Rightarrow> (xdp_action \<times> xdp_state) option" where
  "xdp_l3 k cfg i pkt eth_type l3 st =
     (if eth_type \<noteq> ETH_P_IP then
        Some (XDP_PASS, if eth_type = ETH_P_IPV6 then inc_count k 0x86DD st
                        else if eth_type = ETH_P_ARP then inc_count k 0x0806 st else st)
      else if l3 + 20 > length pkt then Some (XDP_PASS, st)
      else do {
        vi \<leftarrow> rd8 pkt l3;
        if drop_bit 4 vi \<noteq> 4 then Some (XDP_PASS, st)
        else do {
          let ihl = vi AND 0x0F;
          if ihl < 5 then Some (XDP_PASS, st)
          else do {
            let l4 = l3 + unat (ucast ihl * 4 :: u32);
            if l4 > length pkt then Some (XDP_PASS, st)
            else xdp_ipv4 k cfg i pkt l3 l4 st
          }
        }
      })"

definition xdp_kwatch_prog ::
    "bpf_kernel \<Rightarrow> kwatch_runtime_config \<Rightarrow> bpf_inputs \<Rightarrow> u8 list \<Rightarrow> xdp_state
     \<Rightarrow> (xdp_action \<times> xdp_state) option" where
  "xdp_kwatch_prog k cfg i pkt st =
     (if \<not> core_data_exists k \<or> \<not> core_data_end_exists k then Some (XDP_ABORTED, st)
      else if 14 > length pkt then Some (XDP_PASS, st)
      else do {
        h_proto \<leftarrow> rd16 pkt 12;
        let eth_type = ntohs h_proto;
        if eth_type = ETH_P_8021Q \<or> eth_type = ETH_P_8021AD then
          if 18 > length pkt then Some (XDP_PASS, st)
          else do {
            encap \<leftarrow> rd16 pkt 16;
            xdp_l3 k cfg i pkt (ntohs encap) 18 st
          }
        else xdp_l3 k cfg i pkt eth_type 14 st
      })"

section \<open>Reference: decode, then act\<close>

text \<open>
  The reference definition reads the packet by stripping headers, and describes the effect of an IPv4
  packet on the decoded header only.
\<close>

record ipv4_packet =
  p_src :: u32
  p_dst :: u32
  p_proto :: u8
  p_ttl :: u8
  p_l4 :: "u8 list"

datatype frame = Ignored | Sentinel u32 | IPv4 ipv4_packet

record l4_info =
  l4_sport :: u16
  l4_dport :: u16
  l4_flags :: u8
  l4_type :: u8
  l4_code :: u8

definition be16 :: "u8 \<Rightarrow> u8 \<Rightarrow> u16" where
  "be16 hi lo = le16 lo hi"

definition strip_l2 :: "u8 list \<Rightarrow> (u16 \<times> u8 list) option" where
  "strip_l2 f =
     (let body = drop 14 f; et = be16 (f ! 12) (f ! 13) in
      if length f < 14 then None
      else if et = 0x8100 \<or> et = 0x88A8
      then (if length body < 4 then None else Some (be16 (body ! 2) (body ! 3), drop 4 body))
      else Some (et, body))"

definition header_len :: "u8 list \<Rightarrow> nat" where
  "header_len p = 4 * (unat (p ! 0) mod 16)"

definition decode_ipv4 :: "u8 list \<Rightarrow> ipv4_packet option" where
  "decode_ipv4 p =
     (if length p < 20 \<or> unat (p ! 0) div 16 \<noteq> 4 \<or> header_len p < 20 \<or> length p < header_len p then None
      else Some \<lparr>p_src = le32 (p ! 12) (p ! 13) (p ! 14) (p ! 15),
                 p_dst = le32 (p ! 16) (p ! 17) (p ! 18) (p ! 19),
                 p_proto = p ! 9, p_ttl = p ! 8, p_l4 = drop (header_len p) p\<rparr>)"

definition decode_frame :: "u8 list \<Rightarrow> frame" where
  "decode_frame f =
     (case strip_l2 f of
        None \<Rightarrow> Ignored
      | Some (et, p) \<Rightarrow>
          if et = 0x0800 then (case decode_ipv4 p of None \<Rightarrow> Ignored | Some h \<Rightarrow> IPv4 h)
          else if et = 0x86DD \<or> et = 0x0806 then Sentinel (ucast et) else Ignored)"

definition l4_info_of :: "ipv4_packet \<Rightarrow> l4_info" where
  "l4_info_of h =
     (let b = p_l4 h in
      if p_proto h = 6 \<and> 20 \<le> length b
      then \<lparr>l4_sport = be16 (b ! 0) (b ! 1), l4_dport = be16 (b ! 2) (b ! 3), l4_flags = b ! 13,
            l4_type = 0, l4_code = 0\<rparr>
      else if p_proto h = 17 \<and> 8 \<le> length b
      then \<lparr>l4_sport = be16 (b ! 0) (b ! 1), l4_dport = be16 (b ! 2) (b ! 3), l4_flags = 0,
            l4_type = 0, l4_code = 0\<rparr>
      else if p_proto h = 1 \<and> 8 \<le> length b
      then \<lparr>l4_sport = 0, l4_dport = 0, l4_flags = 0, l4_type = b ! 0, l4_code = b ! 1\<rparr>
      else \<lparr>l4_sport = 0, l4_dport = 0, l4_flags = 0, l4_type = 0, l4_code = 0\<rparr>)"

definition event_of :: "u64 \<Rightarrow> u8 \<Rightarrow> ipv4_packet \<Rightarrow> kwatch_event" where
  "event_of now act h =
     (let l = l4_info_of h in
      \<lparr>ts_ns = now, src_ip = p_src h, dst_ip = p_dst h, sport = l4_sport l, dport = l4_dport l,
       protocol = p_proto h, tcp_flags = l4_flags l, ttl = p_ttl h, action = act,
       icmp_type = l4_type l, icmp_code = l4_code l\<rparr>)"

definition flow_key_of :: "ipv4_packet \<Rightarrow> kwatch_flow_key" where
  "flow_key_of h =
     (let l = l4_info_of h in
      \<lparr>fk_src_ip = p_src h, fk_dst_ip = p_dst h, fk_sport = l4_sport l, fk_dport = l4_dport l,
       fk_protocol = p_proto h\<rparr>)"

definition notify :: "kwatch_runtime_config \<Rightarrow> bpf_inputs \<Rightarrow> bool \<Rightarrow> kwatch_event \<Rightarrow> xdp_state \<Rightarrow> xdp_state" where
  "notify cfg i is_new e st =
     (if \<not> kwatch_should_emit_event (cfg_sample_n cfg) (prandom_u32 i) is_new then st
      else if ringbuf_room i then st\<lparr>events := events st @ [e]\<rparr>
      else inc_ringbuf_drop st)"

definition act_on ::
    "bpf_kernel \<Rightarrow> kwatch_runtime_config \<Rightarrow> bpf_inputs \<Rightarrow> ipv4_packet \<Rightarrow> xdp_state \<Rightarrow> xdp_action \<times> xdp_state" where
  "act_on k cfg i h st =
     (if lpm_lookup k (blacklist st) (32, p_src h) \<noteq> None
      then (XDP_DROP, notify cfg i True (event_of (ktime_event i) 1 h) (inc_count k 0xFFFF st))
      else (let (st', is_new) = track_flow k cfg (ktime_flow i) (flow_key_of h)
                  (l4_flags (l4_info_of h)) (inc_count k (ucast (p_proto h)) st)
            in (XDP_PASS, notify cfg i is_new (event_of (ktime_event i) 0 h) st')))"

definition xdp_spec ::
    "bpf_kernel \<Rightarrow> kwatch_runtime_config \<Rightarrow> bpf_inputs \<Rightarrow> u8 list \<Rightarrow> xdp_state \<Rightarrow> xdp_action \<times> xdp_state" where
  "xdp_spec k cfg i pkt st =
     (if \<not> (core_data_exists k \<and> core_data_end_exists k) then (XDP_ABORTED, st)
      else case decode_frame pkt of
        Ignored \<Rightarrow> (XDP_PASS, st)
      | Sentinel n \<Rightarrow> (XDP_PASS, inc_count k n st)
      | IPv4 h \<Rightarrow> act_on k cfg i h st)"

section \<open>The program refines the reference\<close>

lemma ntohs_le16 [simp]: "ntohs (le16 a b) = be16 a b"
  by (simp add: ntohs_def be16_def)

lemma rd_Some [simp]:
  "i + 1 \<le> length pkt \<Longrightarrow> rd8 pkt i = Some (pkt ! i)"
  "i + 2 \<le> length pkt \<Longrightarrow> rd16 pkt i = Some (load16 pkt i)"
  "i + 4 \<le> length pkt \<Longrightarrow> rd32 pkt i = Some (load32 pkt i)"
  by (simp_all add: rd8_def rd16_def rd32_def)

lemma unat_low_nibble: "unat (v AND 0x0F) = unat v mod 16" for v :: u8
proof -
  have "(0x0F :: u8) = mask 4" by (simp add: mask_eq_exp_minus_1)
  then have "unat (v AND 0x0F) = unat (take_bit 4 v)" by (simp only: take_bit_eq_mask)
  then show ?thesis by (simp add: take_bit_eq_mod unat_mod)
qed

lemma unat_high_nibble: "unat (drop_bit 4 v) = unat v div 16" for v :: u8
  by (simp add: drop_bit_eq_div unat_div)

lemma header_bytes: "unat (ucast (v AND 0x0F :: u8) * 4 :: u32) = 4 * (unat v mod 16)"
proof -
  have "unat (ucast (v AND 0x0F :: u8) :: u32) = unat v mod 16"
    using unat_bound(1)[of "v AND 0x0F"] by (simp add: unsigned_ucast_eq take_bit_nat_eq_self unat_low_nibble)
  moreover have "unat v mod 16 * 4 < 2 ^ 32" by (rule le_less_trans[of _ "15 * 4"]) simp_all
  ultimately show ?thesis by (simp add: unat_word_ariths)
qed

lemma nibble_tests:
  "drop_bit 4 v \<noteq> 4 \<longleftrightarrow> unat v div 16 \<noteq> 4" "v AND 0x0F < 5 \<longleftrightarrow> 4 * (unat v mod 16) < 20" for v :: u8
  using unat_high_nibble[of v] unat_low_nibble[of v] by (simp_all add: word_less_nat_alt word_unat_eq_iff)

text \<open>Reading at an offset is reading the rest of the packet.\<close>

lemma event_l4_spec:
  assumes "a \<le> length pkt" "p_l4 h = drop a pkt" "p_proto h = proto"
  shows "event_l4 pkt a proto \<lparr>ts_ns = now, src_ip = p_src h, dst_ip = p_dst h, sport = 0, dport = 0,
      protocol = proto, tcp_flags = 0, ttl = p_ttl h, action = act, icmp_type = 0, icmp_code = 0\<rparr>
    = Some (event_of now act h)"
proof -
  have ge: "n \<le> length (drop a pkt) \<longleftrightarrow> a + n \<le> length pkt" for n using assms(1) by auto
  show ?thesis unfolding event_l4_def event_of_def l4_info_of_def assms(2,3) Let_def ge
    using assms(1) by (simp add: load_defs nth_drop numeral_3_eq_3)
qed

lemma flow_l4_spec:
  assumes "a \<le> length pkt" "p_l4 h = drop a pkt" "p_proto h = proto"
  shows "flow_l4 pkt a proto
      \<lparr>fk_src_ip = p_src h, fk_dst_ip = p_dst h, fk_sport = 0, fk_dport = 0, fk_protocol = proto\<rparr>
    = Some (flow_key_of h, l4_flags (l4_info_of h))"
proof -
  have ge: "n \<le> length (drop a pkt) \<longleftrightarrow> a + n \<le> length pkt" for n using assms(1) by auto
  show ?thesis unfolding flow_l4_def flow_key_of_def l4_info_of_def assms(2,3) Let_def ge
    using assms(1) by (simp add: load_defs nth_drop numeral_3_eq_3)
qed

lemma emit_event_spec:
  assumes "a \<le> length pkt" "p_l4 h = drop a pkt"
  shows "emit_event cfg i pkt a (p_src h) (p_dst h) (p_proto h) (p_ttl h) act is_new st =
    Some (notify cfg i is_new (event_of (ktime_event i) act h) st)"
  using event_l4_spec[OF assms refl] by (simp add: emit_event_def notify_def)

lemma xdp_ipv4_spec:
  assumes "ip + 20 \<le> length pkt" "a \<le> length pkt"
    and "h = \<lparr>p_src = load32 pkt (ip + 12), p_dst = load32 pkt (ip + 16), p_proto = pkt ! (ip + 9),
              p_ttl = pkt ! (ip + 8), p_l4 = drop a pkt\<rparr>"
  shows "xdp_ipv4 k cfg i pkt ip a st = Some (act_on k cfg i h st)"
proof -
  have emit: "emit_event cfg i pkt a (load32 pkt (ip + 12)) (load32 pkt (ip + 16)) (pkt ! (ip + 9))
      (pkt ! (ip + 8)) act n st' = Some (notify cfg i n (event_of (ktime_event i) act h) st')" for act n st'
    using emit_event_spec[OF assms(2), of h] by (simp add: assms(3))
  have flow: "flow_l4 pkt a (pkt ! (ip + 9)) \<lparr>fk_src_ip = load32 pkt (ip + 12),
      fk_dst_ip = load32 pkt (ip + 16), fk_sport = 0, fk_dport = 0, fk_protocol = pkt ! (ip + 9)\<rparr>
      = Some (flow_key_of h, l4_flags (l4_info_of h))"
    using flow_l4_spec[OF assms(2), of h] by (simp add: assms(3))
  have f: "p_src h = load32 pkt (ip + 12)" "p_proto h = pkt ! (ip + 9)" using assms(3) by simp_all
  show ?thesis using assms(1)
    by (simp add: xdp_ipv4_def act_on_def emit flow f case_prod_beta Let_def)
qed

lemma xdp_l3_spec:
  assumes "l3 \<le> length pkt"
  shows "xdp_l3 k cfg i pkt et l3 st = Some
    (if et = 0x0800 then (case decode_ipv4 (drop l3 pkt) of None \<Rightarrow> (XDP_PASS, st) | Some h \<Rightarrow> act_on k cfg i h st)
     else (XDP_PASS, if et = 0x86DD \<or> et = 0x0806 then inc_count k (ucast et) st else st))"
proof (cases "et = 0x0800 \<and> l3 + 20 \<le> length pkt")
  case True
  let ?p = "drop l3 pkt" and ?v = "pkt ! l3"
  define a where "a = l3 + header_len ?p"
  have at: "j < 20 \<Longrightarrow> ?p ! j = pkt ! (l3 + j)" for j using True by (simp add: nth_drop)
  have hl: "unat (ucast (?v AND 0x0F) * 4 :: u32) = header_len ?p" "header_len ?p = 4 * (unat ?v mod 16)"
    using at[of 0] by (simp_all add: header_len_def header_bytes)
  have rest: "drop (header_len ?p) ?p = drop a pkt" "length ?p < header_len ?p \<longleftrightarrow> length pkt < a"
    using True by (auto simp: a_def add.commute)
  have len: "\<not> length ?p < 20" using True by auto
  let ?h = "\<lparr>p_src = load32 pkt (l3 + 12), p_dst = load32 pkt (l3 + 16), p_proto = pkt ! (l3 + 9),
      p_ttl = pkt ! (l3 + 8), p_l4 = drop a pkt\<rparr>"
  have dec: "decode_ipv4 ?p = (if unat ?v div 16 \<noteq> 4 \<or> header_len ?p < 20 \<or> length pkt < a then None else Some ?h)"
    unfolding decode_ipv4_def rest using len by (simp add: at load_defs ac_simps del: nth_drop length_drop)
  show ?thesis
    using True xdp_ipv4_spec[of l3 pkt a ?h k cfg i st]
    by (simp add: xdp_l3_def dec eth_defs Let_def nibble_tests hl(1)) (simp add: a_def hl(2))
next
  case False
  then show ?thesis by (auto simp: xdp_l3_def eth_defs decode_ipv4_def)
qed

lemma xdp_l3_decoded:
  assumes "l3 \<le> length pkt" "strip_l2 pkt = Some (et, drop l3 pkt)" "core_data_exists k" "core_data_end_exists k"
  shows "xdp_l3 k cfg i pkt et l3 st = Some (xdp_spec k cfg i pkt st)"
  using assms(2-) by (simp add: xdp_l3_spec[OF assms(1)] xdp_spec_def decode_frame_def split: option.splits)

lemma xdp_prog_spec: "xdp_kwatch_prog k cfg i pkt st = Some (xdp_spec k cfg i pkt st)"
proof (cases "core_data_exists k \<and> core_data_end_exists k")
  case core: True
  let ?et = "be16 (pkt ! 12) (pkt ! 13)"
  consider (short) "length pkt < 14" | (tag_short) "14 \<le> length pkt" "?et = 0x8100 \<or> ?et = 0x88A8" "length pkt < 18"
    | (tag) "?et = 0x8100 \<or> ?et = 0x88A8" "18 \<le> length pkt" | (plain) "14 \<le> length pkt" "\<not> (?et = 0x8100 \<or> ?et = 0x88A8)"
    by linarith
  then show ?thesis
  proof cases
    case tag
    then have "strip_l2 pkt = Some (be16 (pkt ! 16) (pkt ! 17), drop 18 pkt)"
      by (auto simp: strip_l2_def Let_def nth_drop)
    with xdp_l3_decoded[OF _ this] tag core show ?thesis
      by (auto simp: xdp_kwatch_prog_def eth_defs load16_def)
  next
    case plain
    then have "strip_l2 pkt = Some (?et, drop 14 pkt)" by (auto simp: strip_l2_def Let_def)
    with xdp_l3_decoded[OF _ this] plain core show ?thesis
      by (auto simp: xdp_kwatch_prog_def eth_defs load16_def)
  qed (use core in \<open>auto simp: xdp_kwatch_prog_def eth_defs load16_def xdp_spec_def decode_frame_def strip_l2_def Let_def\<close>)
qed (auto simp: xdp_kwatch_prog_def xdp_spec_def)

section \<open>What each helper changes\<close>

lemma inc_count_fields [simp]:
  "blacklist (inc_count k n st) = blacklist st" "flow_state (inc_count k n st) = flow_state st"
  "events (inc_count k n st) = events st" "ringbuf_drops (inc_count k n st) = ringbuf_drops st"
  by (simp_all add: inc_count_def split: option.splits)

lemma inc_ringbuf_drop_fields [simp]:
  "blacklist (inc_ringbuf_drop st) = blacklist st" "flow_state (inc_ringbuf_drop st) = flow_state st"
  "events (inc_ringbuf_drop st) = events st" "pkt_counts (inc_ringbuf_drop st) = pkt_counts st"
  "ringbuf_drops (inc_ringbuf_drop st) 0 = map_option (\<lambda>c. c + 1) (ringbuf_drops st 0)"
  by (simp_all add: inc_ringbuf_drop_def split: option.splits)

lemma notify_fields [simp]:
  "blacklist (notify cfg i n e st) = blacklist st" "flow_state (notify cfg i n e st) = flow_state st"
  "pkt_counts (notify cfg i n e st) = pkt_counts st"
  by (simp_all add: notify_def)

lemma track_flow_fields [simp]:
  "blacklist (fst (track_flow k cfg now q f st)) = blacklist st"
  "events (fst (track_flow k cfg now q f st)) = events st"
  "pkt_counts (fst (track_flow k cfg now q f st)) = pkt_counts st"
  "ringbuf_drops (fst (track_flow k cfg now q f st)) = ringbuf_drops st"
  "snd (track_flow k cfg now q f st) \<longleftrightarrow> flow_state st q = None"
  by (simp_all add: track_flow_def split: option.splits)

lemma act_on_blacklist [simp]: "blacklist (snd (act_on k cfg i h st)) = blacklist st"
  by (simp add: act_on_def case_prod_beta)

lemma xdp_spec_blacklist [simp]: "blacklist (snd (xdp_spec k cfg i pkt st)) = blacklist st"
  by (simp add: xdp_spec_def split: frame.split)

text \<open>The counter map after \<open>inc_count\<close>, on a hash map of 256 entries.\<close>

definition count_up :: "(u32 \<rightharpoonup> u64) \<Rightarrow> u32 \<Rightarrow> (u32 \<rightharpoonup> u64)" where
  "count_up m n =
     (case m n of
        Some c \<Rightarrow> m(n \<mapsto> c + 1)
      | None \<Rightarrow> if card (dom m) < 256 then m(n \<mapsto> 1) else m)"

lemma inc_count_up:
  "hash_law 256 (pkt_counts_noexist k) \<Longrightarrow> pkt_counts (inc_count k n st) = count_up (pkt_counts st) n"
  by (simp add: inc_count_def count_up_def hash_law_def split: option.split)

text \<open>The outcome of an accepted IPv4 packet, by the blacklist.\<close>

lemma act_on_drop:
  "lpm_lookup k (blacklist st) (32, p_src h) \<noteq> None \<Longrightarrow> act_on k cfg i h st =
     (XDP_DROP, notify cfg i True (event_of (ktime_event i) 1 h) (inc_count k 0xFFFF st))"
  by (simp add: act_on_def)

lemma act_on_pass:
  assumes "lpm_lookup k (blacklist st) (32, p_src h) = None"
  shows "fst (act_on k cfg i h st) = XDP_PASS"
    "pkt_counts (snd (act_on k cfg i h st)) = pkt_counts (inc_count k (ucast (p_proto h)) st)"
    "flow_state (snd (act_on k cfg i h st)) = flow_state (fst (track_flow k cfg (ktime_flow i)
       (flow_key_of h) (l4_flags (l4_info_of h)) st))"
  using assms by (simp_all add: act_on_def case_prod_beta track_flow_def split: option.split)

lemma prog_cases:
  assumes "xdp_kwatch_prog k cfg i pkt st = Some (act, st')" "act = XDP_DROP"
  obtains h where "decode_frame pkt = IPv4 h" "lpm_lookup k (blacklist st) (32, p_src h) \<noteq> None"
    "st' = notify cfg i True (event_of (ktime_event i) 1 h) (inc_count k 0xFFFF st)"
  using assms by (auto simp: xdp_prog_spec xdp_spec_def act_on_def case_prod_beta split: if_splits frame.splits)

section \<open>Built frames\<close>

text \<open>Frames a sender builds: optional 802.1Q or 802.1ad tag, IPv4 header with options, any payload.\<close>

definition ipv4_bytes :: "u8 list \<Rightarrow> u8 list \<Rightarrow> u8 list \<Rightarrow> ipv4_packet \<Rightarrow> u8 list" where
  "ipv4_bytes mid cks opts h =
     [0x45 + of_nat (length opts div 4)] @ mid @ [p_ttl h, p_proto h] @ cks @
     bytes32 (p_src h) @ bytes32 (p_dst h) @ opts @ p_l4 h"

definition frame_bytes :: "u8 list \<Rightarrow> (u8 \<times> u8 \<times> u8 \<times> u8) option \<Rightarrow> u8 list \<Rightarrow> u8 list" where
  "frame_bytes macs tag body =
     macs @ (case tag of None \<Rightarrow> [] | Some (a, b, c, d) \<Rightarrow> [a, b, c, d]) @ [0x08, 0x00] @ body"

definition header_ok :: "u8 list \<Rightarrow> u8 list \<Rightarrow> u8 list \<Rightarrow> bool" where
  "header_ok mid cks opts \<longleftrightarrow>
     length mid = 7 \<and> length cks = 2 \<and> length opts mod 4 = 0 \<and> length opts \<le> 40"

fun tag_ok :: "(u8 \<times> u8 \<times> u8 \<times> u8) option \<Rightarrow> bool" where
  "tag_ok None = True"
| "tag_ok (Some (a, b, _, _)) = ((a, b) \<in> {(0x81, 0x00), (0x88, 0xA8)})"

lemma list_len2: "length xs = 2 \<Longrightarrow> \<exists>a b. xs = [a, b]"
  by (auto simp: length_Suc_conv numeral_2_eq_2)

lemma list_len7: "length xs = 7 \<Longrightarrow> \<exists>a b c d e f g. xs = [a, b, c, d, e, f, g]"
  by (auto simp: length_Suc_conv numeral_eq_Suc)

lemma first_byte:
  "n \<le> 10 \<Longrightarrow> unat (0x45 + of_nat n :: u8) = 0x45 + n"
  by (subst unat_word_ariths) (simp add: unat_of_nat)

lemma nth_past: "length xs = n \<Longrightarrow> (xs @ ys) ! (n + i) = ys ! i"
  by auto

lemma decode_ipv4_bytes:
  assumes "header_ok mid cks opts"
  shows "decode_ipv4 (ipv4_bytes mid cks opts h) = Some h"
proof -
  define n where "n = length opts div 4"
  have n: "n \<le> 10" "4 * n = length opts" using assms by (auto simp: n_def header_ok_def)
  let ?v = "0x45 + of_nat n :: u8"
  have v: "unat ?v div 16 = 4" "unat ?v mod 16 = 5 + n"
    using first_byte[OF n(1)] n(1) by (simp_all, presburger+)
  obtain a b c d e f g s0 s1 where "mid = [a, b, c, d, e, f, g]" "cks = [s0, s1]"
    using assms list_len7[of mid] list_len2[of cks] by (auto simp: header_ok_def)
  then have bytes: "ipv4_bytes mid cks opts h = [?v, a, b, c, d, e, f, g, p_ttl h, p_proto h, s0, s1,
      byte_at 0 (p_src h), byte_at 1 (p_src h), byte_at 2 (p_src h), byte_at 3 (p_src h),
      byte_at 0 (p_dst h), byte_at 1 (p_dst h), byte_at 2 (p_dst h), byte_at 3 (p_dst h)] @ opts @ p_l4 h"
    by (simp add: ipv4_bytes_def n_def bytes32_def)
  have hl: "header_len (ipv4_bytes mid cks opts h) = 20 + length opts"
    using v(2) n(2) by (simp add: header_len_def bytes)
  have tail: "drop (20 + length opts) (ipv4_bytes mid cks opts h) = p_l4 h"
    by (simp add: bytes add.commute[of 20] flip: drop_drop)
  show ?thesis unfolding decode_ipv4_def hl tail using v(1)
    by (simp add: bytes)
qed

lemma strip_l2_frame:
  assumes "length macs = 12" "tag_ok tag"
  shows "strip_l2 (frame_bytes macs tag body) = Some (0x0800, body)"
proof -
  have at: "(macs @ xs) ! 12 = xs ! 0" "(macs @ xs) ! 13 = xs ! 1" "drop 14 (macs @ xs) = drop 2 xs" for xs
    using nth_past[OF assms(1), of xs 0] nth_past[OF assms(1), of xs 1] assms(1) by simp_all
  show ?thesis
  proof (cases tag)
    case None
    then show ?thesis using assms(1) by (simp add: strip_l2_def frame_bytes_def at be16_def le16_def)
  next
    case (Some t)
    obtain a b c d where t: "t = (a, b, c, d)" by (cases t)
    with assms Some have "be16 a b = 0x8100 \<or> be16 a b = 0x88A8"
      by (auto simp: be16_def le16_def)
    then show ?thesis using assms(1) Some t
      by (auto simp: strip_l2_def frame_bytes_def at be16_def le16_def)
  qed
qed

lemma decode_frame_bytes:
  "length macs = 12 \<Longrightarrow> tag_ok tag \<Longrightarrow> header_ok mid cks opts \<Longrightarrow>
     decode_frame (frame_bytes macs tag (ipv4_bytes mid cks opts h)) = IPv4 h"
  by (simp add: decode_frame_def strip_l2_frame decode_ipv4_bytes)

section \<open>Runs over several packets\<close>

fun xdp_run ::
    "bpf_kernel \<Rightarrow> kwatch_runtime_config \<Rightarrow> (bpf_inputs \<times> u8 list) list \<Rightarrow> xdp_state \<Rightarrow> xdp_state option" where
  "xdp_run k cfg [] st = Some st"
| "xdp_run k cfg ((i, pkt) # ps) st =
     (case xdp_kwatch_prog k cfg i pkt st of
        None \<Rightarrow> None
      | Some (_, st') \<Rightarrow> xdp_run k cfg ps st')"

definition syn_packets :: "ipv4_packet list \<Rightarrow> nat" where
  "syn_packets hs = length (filter (\<lambda>h. bit (l4_flags (l4_info_of h)) 1) hs)"

definition ack_packets :: "ipv4_packet list \<Rightarrow> nat" where
  "ack_packets hs = length (filter (\<lambda>h. bit (l4_flags (l4_info_of h)) 4) hs)"

text \<open>The packets of one flow, each with its decoded header, observed within one window from \<open>t0\<close>.\<close>

definition same_flow ::
    "kwatch_flow_key \<Rightarrow> u64 \<Rightarrow> u64 \<Rightarrow> (bpf_inputs \<times> u8 list) list \<Rightarrow> ipv4_packet list \<Rightarrow> bool" where
  "same_flow q t0 w ps hs \<longleftrightarrow>
     list_all2 (\<lambda>(i, pkt) h. decode_frame pkt = IPv4 h \<and> flow_key_of h = q \<and>
       t0 \<le> ktime_flow i \<and> ktime_flow i - t0 \<le> w) ps hs"

lemma flow_key_src: "flow_key_of h = q \<Longrightarrow> p_src h = fk_src_ip q"
  by (auto simp: flow_key_of_def Let_def)

lemma touch_in_window:
  "\<not> now - first_seen_ns s > w \<Longrightarrow> touch_flow_stats w now f s =
     \<lparr>syn_count = syn_count s + (if bit f 1 then 1 else 0), ack_count = ack_count s + (if bit f 4 then 1 else 0),
      first_seen_ns = first_seen_ns s, last_seen_ns = now\<rparr>"
  by (simp add: touch_flow_stats_def Let_def flag_bit)

lemma new_flow_stats_bits:
  "new_flow_stats now f = \<lparr>syn_count = (if bit f 1 then 1 else 0), ack_count = (if bit f 4 then 1 else 0),
     first_seen_ns = now, last_seen_ns = now\<rparr>"
  by (simp add: new_flow_stats_def flag_bit)

text \<open>One packet of a flow that is not blocked.\<close>

lemma prog_flow_step:
  assumes "core_data_exists k" "core_data_end_exists k" "decode_frame pkt = IPv4 h"
    and "lpm_lookup k (blacklist st) (32, p_src h) = None"
  obtains st' where "xdp_kwatch_prog k cfg i pkt st = Some (XDP_PASS, st')" "blacklist st' = blacklist st"
    "flow_state st' = flow_state (fst (track_flow k cfg (ktime_flow i) (flow_key_of h) (l4_flags (l4_info_of h)) st))"
proof
  show "xdp_kwatch_prog k cfg i pkt st = Some (XDP_PASS, snd (act_on k cfg i h st))"
    using assms act_on_pass(1)[OF assms(4)] by (simp add: xdp_prog_spec xdp_spec_def prod_eq_iff)
qed (simp_all add: act_on_pass(3)[OF assms(4)])

lemma run_flow_known:
  assumes "core_data_exists k" "core_data_end_exists k" "same_flow q t0 (cfg_syn_window_ns cfg) ps hs"
    and "lpm_lookup k (blacklist st) (32, fk_src_ip q) = None" "flow_state st q = Some s" "first_seen_ns s = t0"
  shows "\<exists>st'. xdp_run k cfg ps st = Some st' \<and> blacklist st' = blacklist st \<and>
    flow_state st' q = Some \<lparr>syn_count = syn_count s + of_nat (syn_packets hs),
      ack_count = ack_count s + of_nat (ack_packets hs), first_seen_ns = t0,
      last_seen_ns = (if ps = [] then last_seen_ns s else ktime_flow (fst (last ps)))\<rparr>"
  using assms(3-)
proof (induction ps arbitrary: hs st s)
  case Nil
  then show ?case by (simp add: same_flow_def syn_packets_def ack_packets_def)
next
  case (Cons x ps)
  obtain i pkt where x: "x = (i, pkt)" by (cases x)
  from Cons.prems(1) x obtain h hs' where hs: "hs = h # hs'" "decode_frame pkt = IPv4 h" "flow_key_of h = q"
    "t0 \<le> ktime_flow i" "ktime_flow i - t0 \<le> cfg_syn_window_ns cfg" "same_flow q t0 (cfg_syn_window_ns cfg) ps hs'"
    by (auto simp: same_flow_def list_all2_Cons1)
  have src: "p_src h = fk_src_ip q" using hs(3) by (rule flow_key_src)
  obtain st1 where st1: "xdp_kwatch_prog k cfg i pkt st = Some (XDP_PASS, st1)" "blacklist st1 = blacklist st"
    "flow_state st1 = flow_state (fst (track_flow k cfg (ktime_flow i) q (l4_flags (l4_info_of h)) st))"
    using prog_flow_step[OF assms(1,2) hs(2), of st cfg i] Cons.prems(2) src hs(3) by auto
  have "flow_state st1 q = Some (touch_flow_stats (cfg_syn_window_ns cfg) (ktime_flow i) (l4_flags (l4_info_of h)) s)"
    using st1(3) Cons.prems(3) by (simp add: track_flow_def)
  also have "\<dots> = Some \<lparr>syn_count = syn_count s + (if bit (l4_flags (l4_info_of h)) 1 then 1 else 0),
      ack_count = ack_count s + (if bit (l4_flags (l4_info_of h)) 4 then 1 else 0),
      first_seen_ns = t0, last_seen_ns = ktime_flow i\<rparr>"
    using hs(5) Cons.prems(4) by (subst touch_in_window) auto
  finally have f1: "flow_state st1 q = \<dots>" .
  from Cons.IH[OF hs(6) _ f1] st1(2) Cons.prems(2) obtain st2 where "xdp_run k cfg ps st1 = Some st2"
    "blacklist st2 = blacklist st" "flow_state st2 q = Some \<lparr>
      syn_count = syn_count s + (if bit (l4_flags (l4_info_of h)) 1 then 1 else 0) + of_nat (syn_packets hs'),
      ack_count = ack_count s + (if bit (l4_flags (l4_info_of h)) 4 then 1 else 0) + of_nat (ack_packets hs'),
      first_seen_ns = t0, last_seen_ns = (if ps = [] then ktime_flow i else ktime_flow (fst (last ps)))\<rparr>"
    by auto
  with st1(1) x hs(1) show ?case by (auto simp: syn_packets_def ack_packets_def)
qed

lemma run_flow_new:
  assumes "core_data_exists k" "core_data_end_exists k" "lru_law (flow_state_noexist k)"
    and "same_flow q (ktime_flow (fst (hd ps))) (cfg_syn_window_ns cfg) ps hs" "ps \<noteq> []"
    and "lpm_lookup k (blacklist st) (32, fk_src_ip q) = None" "flow_state st q = None"
  shows "\<exists>st'. xdp_run k cfg ps st = Some st' \<and> blacklist st' = blacklist st \<and>
    flow_state st' q = Some \<lparr>syn_count = of_nat (syn_packets hs), ack_count = of_nat (ack_packets hs),
      first_seen_ns = ktime_flow (fst (hd ps)), last_seen_ns = ktime_flow (fst (last ps))\<rparr>"
proof -
  obtain i pkt ps' where ps: "ps = (i, pkt) # ps'" using assms(5) by (cases ps) auto
  from assms(4) ps obtain h hs' where hs: "hs = h # hs'" "decode_frame pkt = IPv4 h" "flow_key_of h = q"
    "same_flow q (ktime_flow i) (cfg_syn_window_ns cfg) ps' hs'"
    by (auto simp: same_flow_def list_all2_Cons1)
  have src: "p_src h = fk_src_ip q" using hs(3) by (rule flow_key_src)
  obtain st1 where st1: "xdp_kwatch_prog k cfg i pkt st = Some (XDP_PASS, st1)" "blacklist st1 = blacklist st"
    "flow_state st1 = flow_state (fst (track_flow k cfg (ktime_flow i) q (l4_flags (l4_info_of h)) st))"
    using prog_flow_step[OF assms(1,2) hs(2), of st cfg i] assms(6) src hs(3) by auto
  have f1: "flow_state st1 q = Some (new_flow_stats (ktime_flow i) (l4_flags (l4_info_of h)))"
    using st1(3) assms(3,7) by (simp add: track_flow_def lru_law_def)
  from run_flow_known[OF assms(1,2) hs(4) _ f1] st1(2) assms(6) show ?thesis
    using st1(1) by (auto simp: ps hs(1) new_flow_stats_bits syn_packets_def ack_packets_def)
qed

section \<open>Interleaved traffic\<close>

text \<open>
  The IPv4 packets of one source among frames of any kind, and the packets of one flow among these, each
  with the inputs of its run.
\<close>

definition from_source :: "u32 \<Rightarrow> (bpf_inputs \<times> u8 list) list \<Rightarrow> (bpf_inputs \<times> ipv4_packet) list" where
  "from_source ip ps =
     concat (map (\<lambda>(i, pkt). case decode_frame pkt of IPv4 h \<Rightarrow> if p_src h = ip then [(i, h)] else [] | _ \<Rightarrow> []) ps)"

definition of_flow :: "kwatch_flow_key \<Rightarrow> (bpf_inputs \<times> u8 list) list \<Rightarrow> (bpf_inputs \<times> ipv4_packet) list" where
  "of_flow q ps = filter (\<lambda>(i, h). flow_key_of h = q) (from_source (fk_src_ip q) ps)"

text \<open>The LRU table evicts no flow of the source during the run.\<close>

definition flows_kept ::
    "bpf_kernel \<Rightarrow> kwatch_runtime_config \<Rightarrow> u32 \<Rightarrow> (bpf_inputs \<times> u8 list) list \<Rightarrow> xdp_state \<Rightarrow> bool" where
  "flows_kept k cfg ip ps st \<longleftrightarrow> (\<forall>n \<le> length ps. case xdp_run k cfg (take n ps) st of
     None \<Rightarrow> True
   | Some st' \<Rightarrow> list_all (\<lambda>(i, h). flow_state st' (flow_key_of h) \<noteq> None) (from_source ip (take n ps)))"

lemma xdp_run_snoc:
  "xdp_run k cfg (ps @ [(i, pkt)]) st = Option.bind (xdp_run k cfg ps st) (\<lambda>st'. Some (snd (xdp_spec k cfg i pkt st')))"
proof (induction ps arbitrary: st)
  case (Cons x ps)
  then show ?case by (cases x) (simp add: xdp_prog_spec case_prod_beta)
qed (simp add: xdp_prog_spec case_prod_beta)

lemma xdp_run_blacklist: "xdp_run k cfg ps st = Some st' \<Longrightarrow> blacklist st' = blacklist st"
proof (induction ps arbitrary: st' rule: rev_induct)
  case (snoc x ps)
  then show ?case by (cases x) (auto simp: xdp_run_snoc bind_eq_Some_conv)
qed simp

lemma of_flow_snoc:
  "of_flow q (ps @ [(i, pkt)]) = of_flow q ps @
     (case decode_frame pkt of IPv4 h \<Rightarrow> if flow_key_of h = q then [(i, h)] else [] | _ \<Rightarrow> [])"
  using flow_key_src by (auto simp: of_flow_def from_source_def split: frame.split)

lemma flows_kept_snoc:
  assumes "flows_kept k cfg ip (ps @ [x]) st"
  shows "flows_kept k cfg ip ps st"
    "xdp_run k cfg (ps @ [x]) st = Some st' \<Longrightarrow> (i, h) \<in> set (from_source ip (ps @ [x])) \<Longrightarrow> flow_state st' (flow_key_of h) \<noteq> None"
proof -
  show "flows_kept k cfg ip ps st"
    unfolding flows_kept_def
  proof (intro allI impI)
    fix n assume "n \<le> length ps"
    then have "n \<le> length (ps @ [x])" "take n (ps @ [x]) = take n ps" by simp_all
    with assms show "case xdp_run k cfg (take n ps) st of None \<Rightarrow> True
      | Some st' \<Rightarrow> list_all (\<lambda>(i, h). flow_state st' (flow_key_of h) \<noteq> None) (from_source ip (take n ps))"
      unfolding flows_kept_def by metis
  qed
  show "flow_state st' (flow_key_of h) \<noteq> None"
    if "xdp_run k cfg (ps @ [x]) st = Some st'" "(i, h) \<in> set (from_source ip (ps @ [x]))"
    using assms[unfolded flows_kept_def, rule_format, of "length (ps @ [x])"] that by (fastforce simp: list_all_iff)
qed

lemma touch_within:
  "\<not> (now > first_seen_ns s \<and> now - first_seen_ns s > w) \<Longrightarrow> touch_flow_stats w now f s =
     \<lparr>syn_count = syn_count s + (if bit f 1 then 1 else 0), ack_count = ack_count s + (if bit f 4 then 1 else 0),
      first_seen_ns = first_seen_ns s, last_seen_ns = now\<rparr>"
  by (auto simp: touch_flow_stats_def Let_def flag_bit)

text \<open>What one frame does to the entry of a flow.\<close>

lemma spec_flow_other:
  assumes "lru_law (flow_state_noexist k)" "\<forall>h. decode_frame pkt = IPv4 h \<longrightarrow> flow_key_of h \<noteq> q"
  shows "flow_state (snd (xdp_spec k cfg i pkt st)) q \<in> {flow_state st q, None}"
proof (cases "decode_frame pkt")
  case (IPv4 h)
  then have "flow_key_of h \<noteq> q" using assms(2) by blast
  then have t: "flow_state (fst (track_flow k cfg (ktime_flow i) (flow_key_of h) (l4_flags (l4_info_of h)) st)) q \<in> {flow_state st q, None}"
    using assms(1) by (auto simp: track_flow_def lru_law_def split: option.split)
  show ?thesis
  proof (cases "lpm_lookup k (blacklist st) (32, p_src h)")
    case None
    then show ?thesis using t act_on_pass(3)[OF None] IPv4 by (simp add: xdp_spec_def)
  next
    case (Some v)
    then show ?thesis using IPv4 by (simp add: xdp_spec_def act_on_drop)
  qed
qed (simp_all add: xdp_spec_def)

text \<open>
  The entry the packets of a flow amount to: none without a packet, and otherwise the numbers of packets
  with the SYN and the ACK flag and the times of the first and the last packet.
\<close>

definition entry_from :: "(bpf_inputs \<times> ipv4_packet) list \<Rightarrow> kwatch_flow_stats option" where
  "entry_from ms = (if ms = [] then None else Some \<lparr>
     syn_count = of_nat (syn_packets (map snd ms)), ack_count = of_nat (ack_packets (map snd ms)),
     first_seen_ns = ktime_flow (fst (hd ms)), last_seen_ns = ktime_flow (fst (last ms))\<rparr>)"

text \<open>No two of the packets are further apart than the window.\<close>

definition within :: "u64 \<Rightarrow> (bpf_inputs \<times> ipv4_packet) list \<Rightarrow> bool" where
  "within w ms \<longleftrightarrow> (\<forall>x \<in> set ms. \<forall>y \<in> set ms.
     ktime_flow (fst x) > ktime_flow (fst y) \<longrightarrow> ktime_flow (fst x) - ktime_flow (fst y) \<le> w)"

lemma within_subset: "set ms \<subseteq> set ms' \<Longrightarrow> within w ms' \<Longrightarrow> within w ms"
  unfolding within_def by blast

lemma track_flow_entry:
  assumes "lru_law (flow_state_noexist k)" "flow_state st q = entry_from ms" "within (cfg_syn_window_ns cfg) (ms @ [(i, h)])"
  shows "flow_state (fst (track_flow k cfg (ktime_flow i) q (l4_flags (l4_info_of h)) st)) q = entry_from (ms @ [(i, h)])"
proof (cases "ms = []")
  case True
  then show ?thesis
    using assms(1,2)
    by (simp add: track_flow_def lru_law_def entry_from_def new_flow_stats_bits syn_packets_def ack_packets_def)
next
  case False
  then have "hd ms \<in> set (ms @ [(i, h)])" "(i, h) \<in> set (ms @ [(i, h)])" by simp_all
  with assms(3) have "\<not> (ktime_flow i > ktime_flow (fst (hd ms)) \<and> ktime_flow i - ktime_flow (fst (hd ms)) > cfg_syn_window_ns cfg)"
    unfolding within_def by fastforce
  then show ?thesis
    using assms(2) False by (simp add: track_flow_def touch_within entry_from_def syn_packets_def ack_packets_def)
qed

text \<open>The entry a run over any frames leaves for a flow of a source that is not blocked.\<close>

lemma run_flow_mixed:
  assumes "core_data_exists k" "core_data_end_exists k" "lru_law (flow_state_noexist k)"
    and "lpm_lookup k (blacklist st) (32, fk_src_ip q) = None" "flow_state st q = None"
  shows "xdp_run k cfg ps st = Some st' \<Longrightarrow> flows_kept k cfg (fk_src_ip q) ps st \<Longrightarrow>
    within (cfg_syn_window_ns cfg) (of_flow q ps) \<Longrightarrow> flow_state st' q = entry_from (of_flow q ps)"
proof (induction ps arbitrary: st' rule: rev_induct)
  case Nil
  then show ?case using assms(5) by (simp add: of_flow_def from_source_def entry_from_def)
next
  case (snoc x ps)
  obtain i pkt where x: "x = (i, pkt)" by (cases x)
  obtain st1 where st1: "xdp_run k cfg ps st = Some st1" "st' = snd (xdp_spec k cfg i pkt st1)"
    using snoc.prems(1) by (auto simp: x xdp_run_snoc bind_eq_Some_conv)
  have IH: "flow_state st1 q = entry_from (of_flow q ps)"
    using snoc.IH[OF st1(1) flows_kept_snoc(1)[OF snoc.prems(2)]] within_subset[OF _ snoc.prems(3)] by (simp add: x of_flow_snoc)
  show ?case
  proof (cases "\<exists>h. decode_frame pkt = IPv4 h \<and> flow_key_of h = q")
    case False
    then have same: "of_flow q (ps @ [x]) = of_flow q ps" by (auto simp: x of_flow_snoc split: frame.split)
    have "flow_state st' q \<in> {flow_state st1 q, None}"
      unfolding st1(2) by (rule spec_flow_other[OF assms(3)]) (use False in blast)
    moreover have "flow_state st' q \<noteq> None" if ne: "of_flow q ps \<noteq> []"
    proof -
      obtain j g where "(j, g) \<in> set (of_flow q ps)" using hd_in_set[OF ne] by (metis surj_pair)
      then have "(j, g) \<in> set (from_source (fk_src_ip q) (ps @ [x]))" "flow_key_of g = q"
        by (auto simp: of_flow_def from_source_def)
      with flows_kept_snoc(2)[OF snoc.prems(2,1)] show ?thesis by blast
    qed
    ultimately show ?thesis using IH unfolding same by (auto simp: entry_from_def)
  next
    case True
    then obtain h where h: "decode_frame pkt = IPv4 h" "flow_key_of h = q" by blast
    have ps': "of_flow q (ps @ [x]) = of_flow q ps @ [(i, h)]" using h by (simp add: x of_flow_snoc)
    have "lpm_lookup k (blacklist st1) (32, p_src h) = None"
      using assms(4) xdp_run_blacklist[OF st1(1)] flow_key_src[OF h(2)] by simp
    then have "flow_state st' q = flow_state (fst (track_flow k cfg (ktime_flow i) q (l4_flags (l4_info_of h)) st1)) q"
      using act_on_pass(3) h assms(1,2) by (simp add: st1(2) xdp_spec_def)
    then show ?thesis using track_flow_entry[OF assms(3) IH snoc.prems(3)[unfolded ps']] unfolding ps' by simp
  qed
qed

section \<open>Concurrent counting\<close>

text \<open>
  \<open>inc_count\<close> runs on several CPUs at once. One run is a lookup, then either an atomic add through the
  pointer found or an insert with \<open>BPF_NOEXIST\<close>, each a single step; a schedule is the list of the CPUs
  that step. The counter is the map's value for one key, which nothing deletes.
\<close>

datatype inc_pc = AtLookup | AtAdd | AtInsert | Returned

fun inc_pc_step :: "inc_pc \<Rightarrow> u64 option \<Rightarrow> inc_pc \<times> u64 option" where
  "inc_pc_step AtLookup None = (AtInsert, None)"
| "inc_pc_step AtLookup (Some c) = (AtAdd, Some c)"
| "inc_pc_step AtAdd cnt = (Returned, map_option (\<lambda>c. c + 1) cnt)"
| "inc_pc_step AtInsert None = (Returned, Some 1)"
| "inc_pc_step AtInsert (Some c) = (Returned, Some c)"
| "inc_pc_step Returned cnt = (Returned, cnt)"

definition cpu_step :: "inc_pc list \<times> u64 option \<Rightarrow> nat \<Rightarrow> inc_pc list \<times> u64 option" where
  "cpu_step s j =
     (let (pcs, cnt) = s in
      if j < length pcs then (let (pc, cnt') = inc_pc_step (pcs ! j) cnt in (pcs[j := pc], cnt')) else s)"

definition inc_schedule :: "nat \<Rightarrow> u64 option \<Rightarrow> nat list \<Rightarrow> inc_pc list \<times> u64 option" where
  "inc_schedule n cnt js = foldl cpu_step (replicate n AtLookup, cnt) js"

text \<open>A run of \<open>inc_count\<close> that is not interleaved is two steps of one CPU.\<close>

lemma inc_count_steps:
  assumes "hash_law 256 (pkt_counts_noexist k)" "card (dom (pkt_counts st)) < 256"
  shows "inc_schedule 1 (pkt_counts st n) [0, 0] = ([Returned], pkt_counts (inc_count k n st) n)"
  using assms by (cases "pkt_counts st n")
    (simp_all add: inc_schedule_def cpu_step_def inc_count_def hash_law_def)

definition returned :: "inc_pc list \<Rightarrow> nat" where
  "returned pcs = count_list pcs Returned"

lemma returned_update:
  "j < length pcs \<Longrightarrow> pcs ! j \<noteq> Returned \<Longrightarrow> returned (pcs[j := pc]) = returned pcs + (if pc = Returned then 1 else 0)"
  unfolding returned_def
proof (induction pcs arbitrary: j)
  case (Cons x xs)
  then show ?case by (cases j) auto
qed simp

lemma update_same: "pcs ! j = pc \<Longrightarrow> pcs[j := pc] = pcs"
  by (metis list_update_id)

lemma set_replicate_pc [simp]: "returned (replicate n AtLookup) = 0"
  by (induction n) (simp_all add: returned_def)

lemma cpu_step_known:
  assumes "AtInsert \<notin> set pcs" "cnt = Some (c + of_nat (returned pcs))" "cpu_step (pcs, cnt) j = (pcs', cnt')"
  shows "AtInsert \<notin> set pcs' \<and> cnt' = Some (c + of_nat (returned pcs'))"
proof (cases "j < length pcs")
  case True
  then have "pcs ! j \<noteq> AtInsert" using assms(1) nth_mem by metis
  with True assms show ?thesis
    by (cases "pcs ! j")
      (auto simp: cpu_step_def returned_update update_same split: if_splits dest!: set_update_subset_insert[THEN subsetD])
qed (use assms in \<open>auto simp: cpu_step_def\<close>)

lemma schedule_known:
  "inc_schedule n (Some c) js = (pcs, cnt) \<Longrightarrow> AtInsert \<notin> set pcs \<and> cnt = Some (c + of_nat (returned pcs))"
proof (induction js arbitrary: pcs cnt rule: rev_induct)
  case Nil
  then show ?case by (auto simp: inc_schedule_def)
next
  case (snoc j js)
  obtain pcs1 cnt1 where s: "inc_schedule n (Some c) js = (pcs1, cnt1)" by (cases "inc_schedule n (Some c) js")
  with snoc cpu_step_known[of pcs1 cnt1 c j pcs cnt] show ?case by (auto simp: inc_schedule_def)
qed

section \<open>Verdicts\<close>

lemma xdp_verdict:
  assumes "lpm_law k" "core_data_exists k" "core_data_end_exists k" "xdp_kwatch_prog k cfg i pkt st = Some (act, st')"
  shows "(act = XDP_DROP \<longleftrightarrow>
      (\<exists>h n p. decode_frame pkt = IPv4 h \<and> (n, p) \<in> dom (blacklist st) \<and> lpm_match (unat n) p (p_src h))) \<and>
    (act = XDP_DROP \<or> act = XDP_PASS) \<and> blacklist st' = blacklist st"
proof -
  have out: "xdp_spec k cfg i pkt st = (act, st')" using assms(4) by (simp add: xdp_prog_spec)
  have law: "lpm_lookup k (blacklist st) (32, a) \<noteq> None \<longleftrightarrow>
      (\<exists>n p. (n, p) \<in> dom (blacklist st) \<and> lpm_match (unat n) p a)" for a
    using assms(1) unfolding lpm_law_def by blast
  show ?thesis using out xdp_spec_blacklist[of k cfg i pkt st] assms(2,3) law
    by (auto simp: xdp_spec_def act_on_def case_prod_beta split: frame.splits if_splits)
qed

section \<open>A reference kernel\<close>

definition ref_kernel :: bpf_kernel where
  "ref_kernel = \<lparr>core_data_exists = True, core_data_end_exists = True,
     lpm_lookup = (\<lambda>bl q. if \<exists>e \<in> dom bl. lpm_match (unat (fst e)) (snd e) (snd q) then Some 1 else None),
     pkt_counts_noexist = (\<lambda>m q v. if m q = None \<and> card (dom m) < 256 then m(q \<mapsto> v) else m),
     flow_state_noexist = (\<lambda>m q v. if m q = None then m(q \<mapsto> v) else m)\<rparr>"

definition ref_inputs :: bpf_inputs where
  "ref_inputs = \<lparr>prandom_u32 = 1, ktime_flow = 5, ktime_event = 6, ringbuf_room = True\<rparr>"

definition ref_state :: "(lpm_key \<rightharpoonup> u8) \<Rightarrow> xdp_state" where
  "ref_state bl = \<lparr>blacklist = bl, flow_state = Map.empty, events = [],
     ringbuf_drops = [0 \<mapsto> 0], pkt_counts = Map.empty\<rparr>"

text \<open>A SYN from 10.0.0.1 port 4660 to 10.0.0.2 port 80.\<close>

definition syn_packet :: ipv4_packet where
  "syn_packet = \<lparr>p_src = 0x0100000A, p_dst = 0x0200000A, p_proto = 6, p_ttl = 64,
     p_l4 = [0x12, 0x34, 0x00, 0x50, 0, 0, 0, 0, 0, 0, 0, 0, 0x50, 0x02, 0, 0, 0, 0, 0, 0]\<rparr>"

definition syn_frame :: "u8 list" where
  "syn_frame = frame_bytes (replicate 12 0) None (ipv4_bytes (replicate 7 0) [0, 0] [] syn_packet)"

lemma ref_lookup:
  "lpm_lookup ref_kernel bl (32, a) \<noteq> None \<longleftrightarrow> (\<exists>n p. (n, p) \<in> dom bl \<and> lpm_match (unat n) p a)"
  by (simp add: ref_kernel_def Bex_def)

lemma ref_laws:
  shows "lpm_law ref_kernel" "hash_law 256 (pkt_counts_noexist ref_kernel)"
    "lru_law (flow_state_noexist ref_kernel)" "core_data_exists ref_kernel" "core_data_end_exists ref_kernel"
  unfolding lpm_law_def hash_law_def lru_law_def using ref_lookup by (simp_all add: ref_kernel_def)

lemma decode_syn_frame: "decode_frame syn_frame = IPv4 syn_packet"
  unfolding syn_frame_def by (rule decode_frame_bytes) (simp_all add: header_ok_def)

section \<open>Properties\<close>

text \<open>
  Property C2. For every packet, state and kernel the program returns a verdict: no load is out
  of bounds, and verdict and maps are those of the reference definition, which decodes the frame and
  then acts on the decoded header.
\<close>

theorem xdp_refines: "xdp_kwatch_prog k cfg i pkt st = Some (xdp_spec k cfg i pkt st)"
  by (rule xdp_prog_spec)

text \<open>
  A frame a sender builds, untagged or with one 802.1Q or 802.1ad tag, with up to
  40 bytes of IPv4 options and any payload, is decoded to exactly the header it was built from: the
  program acts on that source, destination, protocol and TTL, and on the payload as the L4 header.
\<close>

theorem xdp_built_frame:
  assumes "core_data_exists k" "core_data_end_exists k" "length macs = 12" "tag_ok tag" "header_ok mid cks opts"
  shows "xdp_kwatch_prog k cfg i (frame_bytes macs tag (ipv4_bytes mid cks opts h)) st = Some (act_on k cfg i h st)"
  using assms by (simp add: xdp_prog_spec xdp_spec_def decode_frame_bytes)

theorem xdp_built_frame_witness:
  "xdp_kwatch_prog ref_kernel (kwatch_make_runtime_config 100 10) ref_inputs syn_frame (ref_state Map.empty) =
     Some (act_on ref_kernel (kwatch_make_runtime_config 100 10) ref_inputs syn_packet (ref_state Map.empty))"
  unfolding syn_frame_def by (rule xdp_built_frame) (simp_all add: ref_laws header_ok_def)

text \<open>
  Property C3. The program drops a packet exactly when it is an acceptable IPv4 frame whose
  source address lies in one of the prefixes of the blacklist; it never changes the blacklist.
\<close>

theorem xdp_drops_iff:
  assumes "lpm_law k" "core_data_exists k" "core_data_end_exists k" "xdp_kwatch_prog k cfg i pkt st = Some (act, st')"
  shows "(act = XDP_DROP \<longleftrightarrow>
      (\<exists>h n p. decode_frame pkt = IPv4 h \<and> (n, p) \<in> dom (blacklist st) \<and> lpm_match (unat n) p (p_src h))) \<and>
    (act = XDP_DROP \<or> act = XDP_PASS) \<and> blacklist st' = blacklist st"
  using assms by (rule xdp_verdict)

theorem xdp_drops_iff_witness:
  "\<exists>st'. xdp_kwatch_prog ref_kernel (kwatch_make_runtime_config 100 10) ref_inputs syn_frame
      (ref_state [(8, 0x0000000A) \<mapsto> 1]) = Some (XDP_DROP, st')"
proof -
  let ?cfg = "kwatch_make_runtime_config 100 10" and ?st = "ref_state [(8, 0x0000000A) \<mapsto> 1]"
  obtain act st' where run: "xdp_kwatch_prog ref_kernel ?cfg ref_inputs syn_frame ?st = Some (act, st')"
    by (cases "xdp_spec ref_kernel ?cfg ref_inputs syn_frame ?st") (simp add: xdp_prog_spec)
  have "lpm_match 8 0x0000000A 0x0100000A" by (simp add: lpm_match_def net_bit_def byte_at_def upt_rec)
  then have "act = XDP_DROP"
    using xdp_drops_iff[OF ref_laws(1,4,5) run] by (auto simp: decode_syn_frame ref_state_def syn_packet_def)
  with run show ?thesis by blast
qed

text \<open>
  Property C11. What a dropped packet leaves behind, exactly: the \<open>0xFFFF\<close> counter is
  bumped if it exists, created with 1 if it does not and the map has fewer than 256 counters, and the drop
  stays uncounted otherwise; one event with action 1 is appended if the ring buffer has room, and the
  overflow counter is bumped if not; sampling never suppresses the event. No other counter and no flow
  changes.
\<close>

theorem xdp_drop_accounting:
  assumes "hash_law 256 (pkt_counts_noexist k)" "xdp_kwatch_prog k cfg i pkt st = Some (XDP_DROP, st')"
  shows "\<exists>h. decode_frame pkt = IPv4 h \<and> flow_state st' = flow_state st \<and> blacklist st' = blacklist st \<and>
    pkt_counts st' =
      (case pkt_counts st 0xFFFF of
         Some c \<Rightarrow> (pkt_counts st)(0xFFFF \<mapsto> c + 1)
       | None \<Rightarrow> if card (dom (pkt_counts st)) < 256 then (pkt_counts st)(0xFFFF \<mapsto> 1) else pkt_counts st) \<and>
    (if ringbuf_room i
     then events st' = events st @ [event_of (ktime_event i) 1 h] \<and> ringbuf_drops st' = ringbuf_drops st
     else events st' = events st \<and> ringbuf_drops st' 0 = map_option (\<lambda>c. c + 1) (ringbuf_drops st 0))"
  using assms(2) refl
proof (cases rule: prog_cases)
  case (1 h)
  then show ?thesis
    using inc_count_up[OF assms(1), unfolded count_up_def] by (simp add: notify_def kwatch_should_emit_event_def)
qed

theorem xdp_drop_accounting_witness:
  "\<exists>st'. xdp_kwatch_prog ref_kernel (kwatch_make_runtime_config 100 10) ref_inputs syn_frame
      (ref_state [(32, 0x0100000A) \<mapsto> 1]) = Some (XDP_DROP, st') \<and> pkt_counts st' 0xFFFF = Some 1 \<and>
      length (events st') = 1"
proof -
  let ?cfg = "kwatch_make_runtime_config 100 10" and ?st = "ref_state [(32, 0x0100000A) \<mapsto> 1]"
  have "lpm_lookup ref_kernel (blacklist ?st) (32, p_src syn_packet) \<noteq> None"
    using ref_lookup[of "[(32, 0x0100000A) \<mapsto> 1]" "0x0100000A"] by (simp add: ref_state_def syn_packet_def)
  then obtain st' where run: "xdp_kwatch_prog ref_kernel ?cfg ref_inputs syn_frame ?st = Some (XDP_DROP, st')"
    by (simp add: xdp_prog_spec xdp_spec_def decode_syn_frame act_on_drop ref_laws)
  from xdp_drop_accounting[OF ref_laws(2) run] run show ?thesis
    by (auto simp: ref_inputs_def ref_state_def count_up_def)
qed

text \<open>
  Property C39. An accepted IPv4 packet from a source outside the blacklist passes; it
  bumps the counter of its protocol, and it is reported exactly when its flow is new, sampling is off
  (\<open>sample_n\<close> at most 1) or the random number is a multiple of \<open>sample_n\<close>: then one event with action 0
  is appended, or the overflow counter bumped when the ring buffer is full.
\<close>

theorem xdp_pass_accounting:
  assumes "core_data_exists k" "core_data_end_exists k" "hash_law 256 (pkt_counts_noexist k)"
    and "decode_frame pkt = IPv4 h" "lpm_lookup k (blacklist st) (32, p_src h) = None"
    and "reported \<longleftrightarrow> flow_state st (flow_key_of h) = None \<or> cfg_sample_n cfg \<le> 1 \<or>
           unat (prandom_u32 i) mod unat (cfg_sample_n cfg) = 0"
  shows "\<exists>st'. xdp_kwatch_prog k cfg i pkt st = Some (XDP_PASS, st') \<and>
    pkt_counts st' = count_up (pkt_counts st) (ucast (p_proto h)) \<and>
    (if reported \<and> ringbuf_room i
     then events st' = events st @ [event_of (ktime_event i) 0 h] \<and> ringbuf_drops st' = ringbuf_drops st
     else events st' = events st \<and>
       ringbuf_drops st' 0 = (if reported then map_option (\<lambda>c. c + 1) (ringbuf_drops st 0) else ringbuf_drops st 0))"
proof -
  let ?st' = "snd (act_on k cfg i h st)" and ?new = "flow_state st (flow_key_of h) = None"
  have "unat (prandom_u32 i) mod unat (cfg_sample_n cfg) = 0 \<longleftrightarrow> prandom_u32 i mod cfg_sample_n cfg = 0"
    by (simp add: word_unat_eq_iff unat_mod)
  then have rep: "kwatch_should_emit_event (cfg_sample_n cfg) (prandom_u32 i) ?new \<longleftrightarrow> reported"
    unfolding assms(6) kwatch_should_emit_event_def by (cases "flow_state st (flow_key_of h)") simp_all
  have "xdp_kwatch_prog k cfg i pkt st = Some (XDP_PASS, ?st')"
    using assms(1,2,4) act_on_pass(1)[OF assms(5)] by (simp add: xdp_prog_spec xdp_spec_def prod_eq_iff)
  moreover have "pkt_counts ?st' = count_up (pkt_counts st) (ucast (p_proto h))"
    using act_on_pass(2)[OF assms(5)] inc_count_up[OF assms(3)] by simp
  ultimately show ?thesis using assms(5) rep
    by (simp add: act_on_def case_prod_beta notify_def)
qed

theorem xdp_pass_accounting_witness:
  "\<exists>st'. xdp_kwatch_prog ref_kernel (kwatch_make_runtime_config 100 10) ref_inputs syn_frame
      (ref_state Map.empty) = Some (XDP_PASS, st') \<and> pkt_counts st' 6 = Some 1 \<and> length (events st') = 1"
proof -
  have no: "lpm_lookup ref_kernel (blacklist (ref_state Map.empty)) (32, p_src syn_packet) = None"
    by (simp add: ref_kernel_def ref_state_def)
  from xdp_pass_accounting[OF ref_laws(4,5,2) decode_syn_frame no refl,
      of "kwatch_make_runtime_config 100 10" ref_inputs]
  show ?thesis by (auto simp: ref_inputs_def ref_state_def count_up_def syn_packet_def)
qed

text \<open>
  Property C10. The flow table counts: over the packets of a new flow, all observed within
  one window of its first packet and from a source that is not blocked, the entry's SYN and ACK
  counters are the numbers of packets with the SYN and the ACK flag (modulo \<open>2 ^ 32\<close>), and its times
  are those of the first and the last packet.
\<close>

theorem flow_counts_exact:
  assumes "core_data_exists k" "core_data_end_exists k" "lru_law (flow_state_noexist k)" "ps \<noteq> []"
    and "same_flow q (ktime_flow (fst (hd ps))) (cfg_syn_window_ns cfg) ps hs"
    and "lpm_lookup k (blacklist st) (32, fk_src_ip q) = None" "flow_state st q = None"
  shows "\<exists>st' s. xdp_run k cfg ps st = Some st' \<and> flow_state st' q = Some s \<and>
    syn_count s = of_nat (syn_packets hs) \<and> ack_count s = of_nat (ack_packets hs) \<and>
    first_seen_ns s = ktime_flow (fst (hd ps)) \<and> last_seen_ns s = ktime_flow (fst (last ps))"
  using run_flow_new[OF assms(1-3,5,4,6,7)] by auto

theorem flow_counts_exact_witness:
  "\<exists>st' s. xdp_run ref_kernel (kwatch_make_runtime_config 100 10) (replicate 3 (ref_inputs, syn_frame))
     (ref_state Map.empty) = Some st' \<and> flow_state st' (flow_key_of syn_packet) = Some s \<and> syn_count s = 3"
proof -
  have "lpm_lookup ref_kernel (blacklist (ref_state Map.empty)) (32, fk_src_ip (flow_key_of syn_packet)) = None"
    by (simp add: ref_kernel_def ref_state_def)
  moreover have "flow_state (ref_state Map.empty) (flow_key_of syn_packet) = None" by (simp add: ref_state_def)
  moreover have "same_flow (flow_key_of syn_packet) (ktime_flow (fst (hd (replicate 3 (ref_inputs, syn_frame)))))
      (cfg_syn_window_ns (kwatch_make_runtime_config 100 10)) (replicate 3 (ref_inputs, syn_frame)) (replicate 3 syn_packet)"
    by (simp add: same_flow_def numeral_3_eq_3 decode_syn_frame)
  moreover have "syn_packets (replicate 3 syn_packet) = 3"
    by (simp add: syn_packets_def numeral_3_eq_3 l4_info_of_def syn_packet_def bit_numeral_rec(1))
  ultimately show ?thesis
    using flow_counts_exact[OF ref_laws(4,5,3), of "replicate 3 (ref_inputs, syn_frame)" "flow_key_of syn_packet"
        "kwatch_make_runtime_config 100 10" "replicate 3 syn_packet" "ref_state Map.empty"] by auto
qed

text \<open>
  Property C40. Once a counter exists, counting loses nothing: whatever the interleaving of
  the CPUs running \<open>inc_count\<close>, the counter has grown by exactly the number of calls that returned.
\<close>

theorem counting_concurrent:
  assumes "inc_schedule n (Some c) js = (pcs, cnt)"
  shows "cnt = Some (c + of_nat (length (filter (\<lambda>pc. pc = Returned) pcs)))"
proof -
  have "returned pcs = length (filter (\<lambda>pc. pc = Returned) pcs)"
    by (simp add: returned_def count_list_eq_length_filter) (metis)
  with schedule_known[OF assms] show ?thesis by simp
qed

theorem counting_concurrent_witness: "snd (inc_schedule 2 (Some 7) [0, 1, 0, 1]) = Some 9"
  using counting_concurrent[OF prod.collapse[symmetric], of 2 7 "[0, 1, 0, 1]"]
  by (simp add: inc_schedule_def cpu_step_def numeral_2_eq_2)

text \<open>
  The first packets of a protocol can be miscounted: two CPUs that both find the
  counter missing both return from \<open>inc_count\<close>, and the counter is 1.
\<close>

theorem first_count_race:
  "inc_schedule 2 None [0, 1, 0, 1] = ([Returned, Returned], Some 1)"
  by (simp add: inc_schedule_def cpu_step_def numeral_2_eq_2)

text \<open>
  The counter map has 256 entries, but 259 keys are in use: once a packet of
  every IPv4 protocol number has been seen, a dropped packet leaves all counters unchanged, so the drop
  counter stays missing.
\<close>

theorem drop_counter_starved:
  assumes "hash_law 256 (pkt_counts_noexist k)" "xdp_kwatch_prog k cfg i pkt st = Some (XDP_DROP, st')"
    and "dom (pkt_counts st) = {n. unat n < 256}"
  shows "pkt_counts st' = pkt_counts st \<and> pkt_counts st' 0xFFFF = None"
proof -
  have "{n :: u32. unat n < 256} = of_nat ` {..<256}"
  proof (intro equalityI subsetI)
    fix n :: u32 assume "n \<in> {n. unat n < 256}"
    then show "n \<in> of_nat ` {..<256}" by (intro image_eqI[of _ _ "unat n"]) simp_all
  qed (auto simp: unat_of_nat)
  moreover have "inj_on (of_nat :: nat \<Rightarrow> u32) {..<256}"
    by (rule inj_on_inverseI[of _ unat]) (simp add: unat_of_nat)
  ultimately have full: "card (dom (pkt_counts st)) = 256" using assms(3) by (simp add: card_image)
  have "0xFFFF \<notin> dom (pkt_counts st)" unfolding assms(3) by simp
  then have none: "pkt_counts st 0xFFFF = None" by (simp add: domIff)
  from assms(2) refl show ?thesis
    by (cases rule: prog_cases) (simp add: inc_count_up[OF assms(1)] count_up_def full none)
qed

theorem drop_counter_starved_witness:
  "\<exists>st'. xdp_kwatch_prog ref_kernel (kwatch_make_runtime_config 100 10) ref_inputs syn_frame
     ((ref_state [(32, 0x0100000A) \<mapsto> 1])\<lparr>pkt_counts := \<lambda>n. if unat n < 256 then Some 1 else None\<rparr>)
     = Some (XDP_DROP, st') \<and> pkt_counts st' 0xFFFF = None"
proof -
  let ?cfg = "kwatch_make_runtime_config 100 10"
    and ?st = "(ref_state [(32, 0x0100000A) \<mapsto> 1])\<lparr>pkt_counts := \<lambda>n. if unat n < 256 then Some 1 else None\<rparr>"
  have "lpm_lookup ref_kernel (blacklist ?st) (32, p_src syn_packet) \<noteq> None"
    using ref_lookup[of "[(32, 0x0100000A) \<mapsto> 1]" "0x0100000A"] by (simp add: ref_state_def syn_packet_def)
  then obtain st' where run: "xdp_kwatch_prog ref_kernel ?cfg ref_inputs syn_frame ?st = Some (XDP_DROP, st')"
    by (simp add: xdp_prog_spec xdp_spec_def decode_syn_frame act_on_drop ref_laws)
  moreover have "dom (pkt_counts ?st) = {n. unat n < 256}" by (auto split: if_splits)
  ultimately show ?thesis using drop_counter_starved[OF ref_laws(2) run] by blast
qed

end
