(* ===== verification/KW_Log.thy ===== *)
theory KW_Log
  imports KW_Text
begin

text \<open>
  \<open>src/log/log.cpp\<close>: the log filter. The level set by \<open>set_level\<close> is the first argument of \<open>emit\<close>; the
  line goes to \<open>stderr\<close>. The rendered time of day, its milliseconds and the text \<open>vsnprintf\<close> put in the
  1024-byte buffer are arguments.
\<close>

section \<open>Levels and lines\<close>

datatype log_level = Error | Warn | Info | Debug | Trace

primrec level_rank :: "log_level \<Rightarrow> nat" where
  "level_rank Error = 0"
| "level_rank Warn = 1"
| "level_rank Info = 2"
| "level_rank Debug = 3"
| "level_rank Trace = 4"

instantiation log_level :: linorder
begin

definition less_eq_log_level :: "log_level \<Rightarrow> log_level \<Rightarrow> bool" where
  "less_eq_log_level a b \<longleftrightarrow> level_rank a \<le> level_rank b"

definition less_log_level :: "log_level \<Rightarrow> log_level \<Rightarrow> bool" where
  "less_log_level a b \<longleftrightarrow> level_rank a < level_rank b"

instance
proof
  fix x y :: log_level
  show "x \<le> y \<Longrightarrow> y \<le> x \<Longrightarrow> x = y"
    by (cases x; cases y) (simp_all add: less_eq_log_level_def)
qed (auto simp: less_eq_log_level_def less_log_level_def)

end

primrec level_to_string :: "log_level \<Rightarrow> string" where
  "level_to_string Error = ''error''"
| "level_to_string Warn = ''warn''"
| "level_to_string Info = ''info''"
| "level_to_string Debug = ''debug''"
| "level_to_string Trace = ''trace''"

definition nl :: string where "nl = [CHR 0x0A]"

text \<open>\<open>%03ld\<close> of a number of milliseconds.\<close>

definition pad3 :: "nat \<Rightarrow> string" where
  "pad3 n = replicate (3 - length (dec_of_nat n)) CHR ''0'' @ dec_of_nat n"

definition emit :: "log_level \<Rightarrow> string \<Rightarrow> nat \<Rightarrow> log_level \<Rightarrow> string \<Rightarrow> string \<Rightarrow> string" where
  "emit current_level ts_buf ms l component msg =
     (if l > current_level then []
      else ts_buf @ ''.'' @ pad3 ms @ ''Z '' @ level_to_string l @ '' '' @ component @ '' '' @ c_str msg @ nl)"

datatype libbpf_print_level = LIBBPF_WARN | LIBBPF_INFO | LIBBPF_DEBUG

definition drop_newline :: "string \<Rightarrow> string" where
  "drop_newline buf = (if buf \<noteq> [] \<and> last buf = CHR 0x0A then butlast buf else buf)"

definition libbpf_print_fn ::
    "log_level \<Rightarrow> string \<Rightarrow> nat \<Rightarrow> libbpf_print_level \<Rightarrow> string \<Rightarrow> string" where
  "libbpf_print_fn current_level ts_buf ms level buf =
     (if level = LIBBPF_DEBUG \<and> current_level < Debug then []
      else if level = LIBBPF_INFO \<and> current_level < Info then []
      else emit current_level ts_buf ms
             (if level = LIBBPF_DEBUG then Debug else if level = LIBBPF_WARN then Warn else Info)
             ''libbpf'' (drop_newline buf))"

primrec level_of_libbpf :: "libbpf_print_level \<Rightarrow> log_level" where
  "level_of_libbpf LIBBPF_WARN = Warn"
| "level_of_libbpf LIBBPF_INFO = Info"
| "level_of_libbpf LIBBPF_DEBUG = Debug"

section \<open>Properties\<close>

lemma emit_printed: "emit cur ts ms l who msg \<noteq> [] \<longleftrightarrow> l \<le> cur"
  by (auto simp: emit_def nl_def)

lemma libbpf_print_emit:
  "libbpf_print_fn cur ts ms lv buf = emit cur ts ms (level_of_libbpf lv) ''libbpf'' (drop_newline buf)"
  by (cases lv) (auto simp: libbpf_print_fn_def emit_def)

text \<open>
  A message is written exactly when its level is at most the level in force, with
  the order error, warn, info, debug, trace, and the messages of libbpf obey the same rule; the two
  tests in the libbpf callback only anticipate it.
\<close>

theorem log_filter:
  "(emit cur ts ms l who msg \<noteq> [] \<longleftrightarrow> l \<le> cur) \<and>
   (libbpf_print_fn cur ts ms lv buf \<noteq> [] \<longleftrightarrow> level_of_libbpf lv \<le> cur)"
  by (simp add: emit_printed libbpf_print_emit)

end
