(* ===== verification/KW_Cli.thy ===== *)
theory KW_Cli
  imports KW_Log
begin

text \<open>
  \<open>src/cli/parser.cpp\<close> and \<open>main.cpp\<close>: the command line. The two preprocessor switches of the build
  are the record \<open>build\<close>; \<open>argv\<close> is a list of strings with the program name first. \<open>std::exit(0)\<close> of
  \<open>--help\<close> and \<open>--version\<close> is an outcome of its own that carries what was written to the two output
  streams. The index \<open>i\<close> that \<open>try_parse_global_option\<close> advances is the number of further arguments it
  consumes. \<open>PROJECT_VERSION\<close>, \<open>GIT_SHA\<close> and the libbpf version macros are parameters of the build.
\<close>

section \<open>Data\<close>

record build =
  with_tui :: bool
  with_experimental :: bool
  project_version :: string
  git_sha :: string
  libbpf_version :: "(nat \<times> nat) option"

datatype Command = NoCommand | Run | Top | Block | Unblock | List | Stats | Demo | Detach

record global_options =
  g_json :: bool
  g_verbose :: int
  g_xdp_mode :: string
  g_syn_threshold :: u32
  g_syn_window :: u32
  g_auto_block :: bool
  g_auto_block_ttl :: u32
  g_sample_n :: u32

definition global_options0 :: global_options where
  "global_options0 = \<lparr>g_json = False, g_verbose = 0, g_xdp_mode = ''auto'', g_syn_threshold = 100,
     g_syn_window = 10, g_auto_block = False, g_auto_block_ttl = 300, g_sample_n = 100\<rparr>"

record parsed_command =
  pc_cmd :: Command
  pc_globals :: global_options
  pc_args :: "string list"

definition parsed_command0 :: parsed_command where
  "parsed_command0 = \<lparr>pc_cmd = NoCommand, pc_globals = global_options0, pc_args = []\<rparr>"

section \<open>Help and version\<close>

definition lines_text :: "string list \<Rightarrow> string" where
  "lines_text ls = concat (map (\<lambda>l. l @ nl) ls)"

definition global_help :: "build \<Rightarrow> string \<Rightarrow> string" where
  "global_help b bin = lines_text (
     [''Usage: '' @ bin @ '' [GLOBAL OPTIONS] <command> [COMMAND OPTIONS] [ARGS]'', [],
      ''Global options:'',
      ''  --json                  Emit machine-readable NDJSON where applicable'',
      ''  -v, --verbose           Increase log verbosity (repeatable: -vv)'',
      ''  --xdp-mode <mode>       auto | skb | drv | hw  (default: auto, prefer drv -> skb)'',
      ''  --sample-n <n>          Ring-buffer sample rate for existing flows (default: 100)''] @
     (if with_experimental b then
       [''  --syn-threshold <n>     SYN flood threshold (default: 100)'',
        ''  --syn-window <s>        SYN flood window in seconds (default: 10)'',
        ''  --auto-block            Automatically block IPs flagged as SYN_FLOOD (default: off)'',
        ''  --auto-block-ttl <s>    Auto-block cooldown in seconds (default: 300)'']
      else []) @
     [[], ''Commands:'',
      ''  run     <iface>                  Attach XDP, stream events to stdout (default)''] @
     (if with_tui b then
       [''  top     <iface>                  Attach XDP, open interactive ncurses dashboard'']
      else []) @
     [''  block   <iface> <cidr> [<cidr>...] Add CIDR entries to the blacklist map'',
      ''  unblock <iface> <cidr> [<cidr>...] Remove CIDR entries from the blacklist map'',
      ''  list    <iface>                    Print current blacklist (one CIDR per line)'',
      ''  stats   <iface>                  Snapshot of protocol counts (one-shot, exits)'',
      ''  demo    <scenario>               Run a built-in traffic scenario'',
      ''  detach  <iface>                  Stop the owning kwatch instance and detach XDP'', [],
      ''Examples:'', ''  sudo '' @ bin @ '' run lo'', ''  sudo '' @ bin @ '' block lo 10.0.0.0/8''])"

fun print_help :: "build \<Rightarrow> string \<Rightarrow> Command \<Rightarrow> string" where
  "print_help b bin NoCommand = global_help b bin"
| "print_help b bin Run = lines_text
     [''Usage: '' @ bin @ '' run <iface> [--json]'', ''  Attach XDP and stream events.'',
      ''  Example: sudo '' @ bin @ '' run lo --json | jq'']"
| "print_help b bin Top = (if with_tui b then lines_text
     [''Usage: '' @ bin @ '' top <iface>'', ''  Launch interactive ncurses dashboard.'',
      ''  Example: sudo '' @ bin @ '' top lo'']
     else lines_text [''Use '' @ bin @ '' --help to see available commands.''])"
| "print_help b bin Block = lines_text
     [''Usage: '' @ bin @ '' block <iface> <cidr>...'', ''  Add IPv4 CIDR entries to the blacklist.'',
      ''  Example: sudo '' @ bin @ '' block lo 10.0.0.0/8'']"
| "print_help b bin Unblock = lines_text
     [''Usage: '' @ bin @ '' unblock <iface> <cidr>...'', ''  Remove IPv4 CIDR entries from the blacklist.'',
      ''  Example: sudo '' @ bin @ '' unblock lo 10.0.0.0/8'']"
| "print_help b bin List = lines_text
     [''Usage: '' @ bin @ '' list <iface>'', ''  Print current blacklist contents.'',
      ''  Example: sudo '' @ bin @ '' list lo'']"
| "print_help b bin Stats = lines_text
     [''Usage: '' @ bin @ '' stats <iface>'', ''  One-shot protocol-counter snapshot.'',
      ''  Example: sudo '' @ bin @ '' stats lo'']"
| "print_help b bin Demo = lines_text
     [''Usage: '' @ bin @ '' demo <scenario> [--target <ip[:port]>] [--rate <pps>] [--duration <s>]'',
      ''  Scenarios: ping-flood, udp-storm'',
      ''  Example: sudo '' @ bin @ '' demo ping-flood --target 127.0.0.1 --duration 2s'']"
| "print_help b bin Detach = lines_text
     [''Usage: '' @ bin @ '' detach <iface>'', ''  Stop the owning kwatch instance and detach XDP. Idempotent.'',
      ''  Example: sudo '' @ bin @ '' detach lo'']"

definition print_version :: "build \<Rightarrow> string" where
  "print_version b = ''kwatch '' @ project_version b @ '' ('' @ git_sha b @ '') libbpf='' @
     (case libbpf_version b of
        Some (maj, mn) \<Rightarrow> dec_of_nat maj @ ''.'' @ dec_of_nat mn
      | None \<Rightarrow> ''unknown'') @ nl"

section \<open>Parsing\<close>

definition parse_subcommand :: "build \<Rightarrow> string \<Rightarrow> Command" where
  "parse_subcommand b s =
     (if s = ''run'' then Run
      else if with_tui b \<and> s = ''top'' then Top
      else if s = ''block'' then Block
      else if s = ''unblock'' then Unblock
      else if s = ''list'' then List
      else if s = ''stats'' then Stats
      else if s = ''demo'' then Demo
      else if s = ''detach'' then Detach
      else NoCommand)"

definition is_valid_xdp_mode :: "string \<Rightarrow> bool" where
  "is_valid_xdp_mode m \<longleftrightarrow> m = ''auto'' \<or> m = ''skb'' \<or> m = ''drv'' \<or> m = ''hw''"

definition parse_u32_arg :: "string \<Rightarrow> string \<Rightarrow> u32 result" where
  "parse_u32_arg opt v =
     (case stoul v of
        Inl _ \<Rightarrow> Err (''Invalid value for '' @ opt @ '': '' @ v)
      | Inr (parsed, pos) \<Rightarrow>
          (if pos \<noteq> length v \<or> parsed > 4294967295 then Err (''Invalid value for '' @ opt @ '': '' @ v)
           else Ok (of_nat parsed)))"

text \<open>
  The result of \<open>try_parse_global_option\<close>: an error, an option taken (with the number of further
  arguments it used), not an option, or a call of \<open>std::exit(0)\<close> after output (\<open>stdout\<close>, \<open>stderr\<close>).
\<close>

datatype opt_result =
    OptErr string
  | OptTaken parsed_command nat
  | OptNone
  | OptExit string string

definition set_globals :: "(global_options \<Rightarrow> global_options) \<Rightarrow> parsed_command \<Rightarrow> parsed_command" where
  "set_globals f p = p\<lparr>pc_globals := f (pc_globals p)\<rparr>"

text \<open>An option that takes a 32-bit number; \<open>chk\<close> is a further check of the value.\<close>

definition u32_option ::
    "string \<Rightarrow> string list \<Rightarrow> (u32 \<Rightarrow> string option) \<Rightarrow> (u32 \<Rightarrow> global_options \<Rightarrow> global_options)
     \<Rightarrow> parsed_command \<Rightarrow> opt_result" where
  "u32_option arg rest chk upd p =
     (case rest of
        [] \<Rightarrow> OptErr (arg @ '' requires an argument'')
      | v # _ \<Rightarrow>
          (case parse_u32_arg arg v of
             Err e \<Rightarrow> OptErr e
           | Ok n \<Rightarrow> (case chk n of Some e \<Rightarrow> OptErr e | None \<Rightarrow> OptTaken (set_globals (upd n) p) 1)))"

definition try_parse_global_option ::
    "build \<Rightarrow> string \<Rightarrow> string \<Rightarrow> string list \<Rightarrow> parsed_command \<Rightarrow> opt_result" where
  "try_parse_global_option b argv0 arg rest p =
     (if arg = ''--json'' then OptTaken (set_globals (\<lambda>g. g\<lparr>g_json := True\<rparr>) p) 0
      else if arg = ''-v'' \<or> arg = ''--verbose''
      then OptTaken (set_globals (\<lambda>g. g\<lparr>g_verbose := g_verbose g + 1\<rparr>) p) 0
      else if arg = ''-vv'' then OptTaken (set_globals (\<lambda>g. g\<lparr>g_verbose := g_verbose g + 2\<rparr>) p) 0
      else if arg = ''--xdp-mode'' then
        (case rest of
           [] \<Rightarrow> OptErr ''--xdp-mode requires an argument''
         | v # _ \<Rightarrow>
             (if is_valid_xdp_mode v then OptTaken (set_globals (\<lambda>g. g\<lparr>g_xdp_mode := v\<rparr>) p) 1
              else OptErr (''Invalid value for --xdp-mode: '' @ v)))
      else if arg = ''--sample-n'' then
        u32_option arg rest (\<lambda>n. if n = 0 then Some ''--sample-n must be greater than zero'' else None)
          (\<lambda>n g. g\<lparr>g_sample_n := n\<rparr>) p
      else if with_experimental b \<and> arg = ''--syn-threshold'' then
        u32_option arg rest (\<lambda>_. None) (\<lambda>n g. g\<lparr>g_syn_threshold := n\<rparr>) p
      else if with_experimental b \<and> arg = ''--syn-window'' then
        u32_option arg rest (\<lambda>_. None) (\<lambda>n g. g\<lparr>g_syn_window := n\<rparr>) p
      else if with_experimental b \<and> arg = ''--auto-block'' then
        OptTaken (set_globals (\<lambda>g. g\<lparr>g_auto_block := True\<rparr>) p) 0
      else if with_experimental b \<and> arg = ''--auto-block-ttl'' then
        u32_option arg rest (\<lambda>_. None) (\<lambda>n g. g\<lparr>g_auto_block_ttl := n\<rparr>) p
      else if arg = ''--help'' \<or> arg = ''-h'' then
        OptExit [] (print_help b argv0
          (if pc_cmd p = NoCommand
           then (case rest of [] \<Rightarrow> NoCommand | v # _ \<Rightarrow> parse_subcommand b v)
           else pc_cmd p))
      else if arg = ''--version'' then OptExit (print_version b) []
      else OptNone)"

datatype cli_outcome = Parsed "parsed_command result" | Exits int string string

text \<open>The loop over \<open>argv[1..]\<close>.\<close>

fun parse_loop :: "build \<Rightarrow> string \<Rightarrow> string list \<Rightarrow> parsed_command \<Rightarrow> cli_outcome" where
  "parse_loop b argv0 [] p =
     Parsed (if pc_cmd p = NoCommand then Err ''No command provided'' else Ok p)"
| "parse_loop b argv0 (arg # rest) p =
     (case try_parse_global_option b argv0 arg rest p of
        OptErr e \<Rightarrow> Parsed (Err e)
      | OptExit out err \<Rightarrow> Exits 0 out err
      | OptTaken p' n \<Rightarrow> parse_loop b argv0 (drop n rest) p'
      | OptNone \<Rightarrow>
          (if pc_cmd p = NoCommand then
             if arg \<noteq> [] \<and> hd arg = CHR ''-'' then Parsed (Err (''Unknown global option: '' @ arg))
             else if parse_subcommand b arg = NoCommand then Parsed (Err (''Unknown command: '' @ arg))
             else parse_loop b argv0 rest (p\<lparr>pc_cmd := parse_subcommand b arg\<rparr>)
           else parse_loop b argv0 rest (p\<lparr>pc_args := pc_args p @ [arg]\<rparr>)))"

definition parse_args :: "build \<Rightarrow> string list \<Rightarrow> cli_outcome" where
  "parse_args b argv =
     (case argv of
        argv0 # x # xs \<Rightarrow> parse_loop b argv0 (x # xs) parsed_command0
      | _ \<Rightarrow> Parsed (Err ''No command provided''))"

section \<open>main\<close>

definition verbosity_level :: "int \<Rightarrow> log_level" where
  "verbosity_level v = (if v = 1 then Debug else if v \<ge> 2 then Trace else Info)"

text \<open>\<open>main\<close> up to the call of a command: an exit status with what was printed, or the command to run.\<close>

datatype main_outcome =
    MainExit int string string
  | Dispatch log_level Command global_options "string list"

definition main_cli :: "build \<Rightarrow> string list \<Rightarrow> main_outcome" where
  "main_cli b argv =
     (case parse_args b argv of
        Exits c out err \<Rightarrow> MainExit c out err
      | Parsed (Err e) \<Rightarrow>
          MainExit 64 [] ((if length argv \<ge> 2 then ''kwatch: '' @ c_str e @ nl @ nl else []) @
            print_help b (hd argv) NoCommand)
      | Parsed (Ok p) \<Rightarrow>
          (if pc_cmd p = NoCommand then MainExit 64 [] []
           else Dispatch (verbosity_level (g_verbose (pc_globals p))) (pc_cmd p) (pc_globals p) (pc_args p)))"

section \<open>What a parsed command satisfies\<close>

definition command_ok :: "build \<Rightarrow> parsed_command \<Rightarrow> bool" where
  "command_ok b p \<longleftrightarrow>
     is_valid_xdp_mode (g_xdp_mode (pc_globals p)) \<and> 0 < g_sample_n (pc_globals p) \<and>
     (pc_cmd p = Top \<longrightarrow> with_tui b) \<and> 0 \<le> g_verbose (pc_globals p) \<and>
     (\<not> with_experimental b \<longrightarrow>
        \<not> g_auto_block (pc_globals p) \<and> g_syn_threshold (pc_globals p) = 100 \<and>
        g_syn_window (pc_globals p) = 10 \<and> g_auto_block_ttl (pc_globals p) = 300)"

lemma command_ok0: "command_ok b parsed_command0"
  by (simp add: command_ok_def parsed_command0_def global_options0_def is_valid_xdp_mode_def)

lemma u32_option_ok:
  assumes "u32_option arg rest chk upd p = OptTaken p' n"
  obtains m where "chk m = None" "p' = set_globals (upd m) p"
  using assms by (auto simp: u32_option_def split: list.splits result.splits option.splits)

lemma if_eqE: "(if c then x else y) = z \<Longrightarrow> (c \<Longrightarrow> x = z \<Longrightarrow> Q) \<Longrightarrow> (y = z \<Longrightarrow> Q) \<Longrightarrow> Q"
  by (simp split: if_splits)

lemma option_keeps:
  assumes "try_parse_global_option b argv0 arg rest p = OptTaken p' n" "command_ok b p"
  shows "command_ok b p'"
  using assms unfolding try_parse_global_option_def
  by (elim if_eqE) (auto simp: command_ok_def set_globals_def word_gt_0
      split: if_splits list.splits elim!: u32_option_ok)

lemma parse_subcommand_Top: "parse_subcommand b s = Top \<Longrightarrow> with_tui b"
  by (auto simp: parse_subcommand_def split: if_splits)

lemma parse_loop_ok:
  "parse_loop b argv0 args p = Parsed (Ok q) \<Longrightarrow> command_ok b p \<Longrightarrow> command_ok b q \<and> pc_cmd q \<noteq> NoCommand"
proof (induction b argv0 args p rule: parse_loop.induct)
  case (2 b argv0 arg rest p)
  show ?case
  proof (cases "try_parse_global_option b argv0 arg rest p")
    case (OptTaken p' n)
    with 2 option_keeps show ?thesis by auto
  next
    case OptNone
    show ?thesis
    proof (cases "pc_cmd p = NoCommand")
      case True
      have "command_ok b (p\<lparr>pc_cmd := parse_subcommand b arg\<rparr>)"
        using "2.prems"(2) parse_subcommand_Top[of b arg] by (auto simp: command_ok_def)
      with 2 OptNone True show ?thesis by (auto split: if_splits)
    next
      case False
      have "command_ok b (p\<lparr>pc_args := pc_args p @ [arg]\<rparr>)"
        using "2.prems"(2) by (simp add: command_ok_def)
      with 2 OptNone False show ?thesis by auto
    qed
  qed (use 2 in auto)
qed (auto split: if_splits)

lemma parse_args_ok: "parse_args b argv = Parsed (Ok p) \<Longrightarrow> command_ok b p \<and> pc_cmd p \<noteq> NoCommand"
  using parse_loop_ok[OF _ command_ok0] by (auto simp: parse_args_def simp del: parse_loop.simps split: list.splits)

lemma parse_loop_exits: "parse_loop b a xs p = Exits st out err \<Longrightarrow> st = 0"
  by (induction b a xs p rule: parse_loop.induct) (auto split: opt_result.splits if_splits)

lemma parse_args_exits: "parse_args b argv = Exits st out err \<Longrightarrow> st = 0"
  using parse_loop_exits by (auto simp: parse_args_def simp del: parse_loop.simps split: list.splits)

section \<open>Rendering a command line\<close>

definition command_name :: "Command \<Rightarrow> string" where
  "command_name c = (case c of
      Run \<Rightarrow> ''run'' | Top \<Rightarrow> ''top'' | Block \<Rightarrow> ''block'' | Unblock \<Rightarrow> ''unblock'' | List \<Rightarrow> ''list''
    | Stats \<Rightarrow> ''stats'' | Demo \<Rightarrow> ''demo'' | Detach \<Rightarrow> ''detach'' | NoCommand \<Rightarrow> [])"

definition option_words :: "build \<Rightarrow> string list" where
  "option_words b =
     [''--json'', ''-v'', ''--verbose'', ''-vv'', ''--xdp-mode'', ''--sample-n'', ''--help'', ''-h'', ''--version''] @
     (if with_experimental b
      then [''--syn-threshold'', ''--syn-window'', ''--auto-block'', ''--auto-block-ttl''] else [])"

definition render_globals :: "build \<Rightarrow> global_options \<Rightarrow> string list" where
  "render_globals b g =
     (if g_json g then [''--json''] else []) @ replicate (nat (g_verbose g)) ''-v'' @
     [''--xdp-mode'', g_xdp_mode g, ''--sample-n'', to_string (g_sample_n g)] @
     (if with_experimental b
      then [''--syn-threshold'', to_string (g_syn_threshold g), ''--syn-window'', to_string (g_syn_window g)] @
           (if g_auto_block g then [''--auto-block''] else []) @
           [''--auto-block-ttl'', to_string (g_auto_block_ttl g)]
      else [])"

lemma not_option: "arg \<notin> set (option_words b) \<Longrightarrow> try_parse_global_option b argv0 arg rest p = OptNone"
  by (auto simp: try_parse_global_option_def option_words_def)

lemma subcommand_name:
  "c \<noteq> NoCommand \<Longrightarrow> (c = Top \<longrightarrow> with_tui b) \<Longrightarrow> parse_subcommand b (command_name c) = c"
  by (cases c) (simp_all add: parse_subcommand_def command_name_def)

lemma command_name_word: "c \<noteq> NoCommand \<Longrightarrow> command_name c \<notin> set (option_words b)"
  "c \<noteq> NoCommand \<Longrightarrow> command_name c \<noteq> [] \<and> hd (command_name c) \<noteq> CHR ''-''"
  by (cases c; simp add: command_name_def option_words_def)+

lemma parse_u32_to_string [simp]: "parse_u32_arg opt (to_string (n :: u32)) = Ok n"
  using unat_bound(3)[of n] by (simp add: parse_u32_arg_def)

lemma parse_args_words:
  "list_all (\<lambda>a. a \<notin> set (option_words b)) args \<Longrightarrow> pc_cmd p \<noteq> NoCommand \<Longrightarrow>
     parse_loop b argv0 args p = Parsed (Ok (p\<lparr>pc_args := pc_args p @ args\<rparr>))"
  by (induction args arbitrary: p) (simp_all add: not_option)

lemma parse_verbose:
  "parse_loop b argv0 (replicate n ''-v'' @ rest) p =
     parse_loop b argv0 rest (set_globals (\<lambda>g. g\<lparr>g_verbose := g_verbose g + int n\<rparr>) p)"
  by (induction n arbitrary: p) (simp_all add: try_parse_global_option_def set_globals_def add.assoc)

lemma parse_u32_options:
  "0 < n \<Longrightarrow> parse_loop b argv0 (''--sample-n'' # to_string n # rest) p =
     parse_loop b argv0 rest (set_globals (\<lambda>g. g\<lparr>g_sample_n := n\<rparr>) p)"
  "with_experimental b \<Longrightarrow> parse_loop b argv0 (''--syn-threshold'' # to_string n # rest) p =
     parse_loop b argv0 rest (set_globals (\<lambda>g. g\<lparr>g_syn_threshold := n\<rparr>) p)"
  "with_experimental b \<Longrightarrow> parse_loop b argv0 (''--syn-window'' # to_string n # rest) p =
     parse_loop b argv0 rest (set_globals (\<lambda>g. g\<lparr>g_syn_window := n\<rparr>) p)"
  "with_experimental b \<Longrightarrow> parse_loop b argv0 (''--auto-block-ttl'' # to_string n # rest) p =
     parse_loop b argv0 rest (set_globals (\<lambda>g. g\<lparr>g_auto_block_ttl := n\<rparr>) p)"
  by (simp_all add: try_parse_global_option_def u32_option_def word_gt_0)

lemma parse_flag_options:
  "parse_loop b argv0 (''--json'' # rest) p = parse_loop b argv0 rest (set_globals (\<lambda>g. g\<lparr>g_json := True\<rparr>) p)"
  "is_valid_xdp_mode m \<Longrightarrow> parse_loop b argv0 (''--xdp-mode'' # m # rest) p =
     parse_loop b argv0 rest (set_globals (\<lambda>g. g\<lparr>g_xdp_mode := m\<rparr>) p)"
  "with_experimental b \<Longrightarrow> parse_loop b argv0 (''--auto-block'' # rest) p =
     parse_loop b argv0 rest (set_globals (\<lambda>g. g\<lparr>g_auto_block := True\<rparr>) p)"
  by (simp_all add: try_parse_global_option_def)

lemmas parse_options = parse_verbose parse_u32_options parse_flag_options

lemma parse_render_globals:
  assumes "command_ok b \<lparr>pc_cmd = c, pc_globals = g, pc_args = as\<rparr>"
  shows "parse_loop b argv0 (render_globals b g @ rest) parsed_command0 =
    parse_loop b argv0 rest \<lparr>pc_cmd = NoCommand, pc_globals = g, pc_args = []\<rparr>"
proof (cases g)
  case (fields js vb m th w ab tt n)
  have ok: "0 \<le> vb" "is_valid_xdp_mode m" "0 < n"
    "\<not> with_experimental b \<Longrightarrow> \<not> ab \<and> th = 100 \<and> w = 10 \<and> tt = 300"
    using assms fields by (simp_all add: command_ok_def)
  show ?thesis
    using ok by (cases "with_experimental b"; cases js; cases ab)
      (simp_all add: fields render_globals_def parse_options set_globals_def parsed_command0_def global_options0_def
        del: parse_loop.simps)
qed

section \<open>Properties\<close>

text \<open>
  Property C36. Whatever command line is accepted, the result names a command of this build
  with a valid XDP mode and a positive sampling rate, and a build without the experimental options
  keeps the detection settings at their defaults, so automatic blocking stays off.
\<close>

theorem parse_args_sound:
  assumes "parse_args b argv = Parsed (Ok p)"
  shows "pc_cmd p \<noteq> NoCommand \<and> (pc_cmd p = Top \<longrightarrow> with_tui b) \<and>
    is_valid_xdp_mode (g_xdp_mode (pc_globals p)) \<and> 0 < g_sample_n (pc_globals p) \<and>
    (\<not> with_experimental b \<longrightarrow> \<not> g_auto_block (pc_globals p) \<and> g_syn_threshold (pc_globals p) = 100)"
  using parse_args_ok[OF assms] by (simp add: command_ok_def)

definition plain_build :: build where
  "plain_build = \<lparr>with_tui = False, with_experimental = False, project_version = ''1.0'', git_sha = ''abc'',
     libbpf_version = None\<rparr>"

lemma run_lo_parsed:
  "parse_args plain_build [''kwatch'', ''--json'', ''run'', ''lo''] = Parsed (Ok
     \<lparr>pc_cmd = Run, pc_globals = global_options0\<lparr>g_json := True\<rparr>, pc_args = [''lo'']\<rparr>)"
  by (simp add: parse_args_def try_parse_global_option_def plain_build_def parsed_command0_def set_globals_def
      parse_subcommand_def)

theorem parse_args_sound_witness:
  "0 < g_sample_n (pc_globals (the (the_ok (case parse_args plain_build [''kwatch'', ''--json'', ''run'', ''lo'']
     of Parsed r \<Rightarrow> r | Exits _ _ _ \<Rightarrow> Err []))))"
  using parse_args_sound[OF run_lo_parsed] by (simp add: run_lo_parsed)

text \<open>
  Property C35. Every setting can be expressed and is read back: for every command the
  build has, every valid choice of global options and arguments that are not option words, the command
  line rendered from them parses to exactly that command.
\<close>

theorem parse_args_roundtrip:
  assumes "command_ok b \<lparr>pc_cmd = c, pc_globals = g, pc_args = args\<rparr>" "c \<noteq> NoCommand"
    and "list_all (\<lambda>a. a \<notin> set (option_words b)) args"
  shows "parse_args b (argv0 # render_globals b g @ command_name c # args) =
    Parsed (Ok \<lparr>pc_cmd = c, pc_globals = g, pc_args = args\<rparr>)"
proof -
  have sub: "parse_subcommand b (command_name c) = c"
    using assms(1,2) by (intro subcommand_name) (simp_all add: command_ok_def)
  obtain x xs where ne: "render_globals b g @ command_name c # args = x # xs"
    by (cases "render_globals b g @ command_name c # args") auto
  have "parse_loop b argv0 (command_name c # args) \<lparr>pc_cmd = NoCommand, pc_globals = g, pc_args = []\<rparr> =
      Parsed (Ok \<lparr>pc_cmd = c, pc_globals = g, pc_args = args\<rparr>)"
    using assms(2) command_name_word[OF assms(2)] sub parse_args_words[OF assms(3)] by (simp add: not_option)
  then show ?thesis
    using parse_render_globals[OF assms(1), of argv0 "command_name c # args"] ne by (simp add: parse_args_def)
qed

theorem parse_args_roundtrip_witness:
  "parse_args plain_build (''kwatch'' # render_globals plain_build (global_options0\<lparr>g_sample_n := 7, g_verbose := 2\<rparr>) @
      command_name Block # [''lo'', ''10.0.0.0/8'']) =
    Parsed (Ok \<lparr>pc_cmd = Block, pc_globals = global_options0\<lparr>g_sample_n := 7, g_verbose := 2\<rparr>,
      pc_args = [''lo'', ''10.0.0.0/8'']\<rparr>)"
  by (rule parse_args_roundtrip)
    (simp_all add: command_ok_def plain_build_def global_options0_def is_valid_xdp_mode_def option_words_def)

text \<open>
  \<open>main\<close> runs a command exactly when the command line parses; otherwise it exits
  with status 64 and the usage text on \<open>stderr\<close>, or with 0 after \<open>--help\<close> or \<open>--version\<close>; no other status
  is possible before a command runs.
\<close>

theorem main_usage_exit:
  "case main_cli b argv of
     Dispatch lvl c g args \<Rightarrow> parse_args b argv = Parsed (Ok \<lparr>pc_cmd = c, pc_globals = g, pc_args = args\<rparr>)
   | MainExit st out err \<Rightarrow>
       (st = 64 \<and> out = [] \<and> (\<exists>e pre. parse_args b argv = Parsed (Err e) \<and> err = pre @ global_help b (hd argv))) \<or>
       (st = 0 \<and> parse_args b argv = Exits 0 out err)"
  using parse_args_exits[of b argv] parse_args_ok[of b argv]
  by (auto simp: main_cli_def split: cli_outcome.splits result.splits)

text \<open>
  The number check lets a negative text through: \<open>stoul\<close> negates it modulo
  \<open>2 ^ 64\<close>, and the result passes the 32-bit range test, so \<open>--sample-n -18446744073709551615\<close> is read as 1.
\<close>

theorem negative_sample_accepted:
  "parse_u32_arg ''--sample-n'' ''-18446744073709551615'' = Ok 1"
  by (simp add: parse_u32_arg_def stoul_def scan_number_def is_space_def is_digit_def nat_of_dec_def digit_val_def)

end
