(* ===== verification/KW_Demo.thy ===== *)
theory KW_Demo
  imports KW_Cli KW_Ipv4 KW_Event
begin

text \<open>
  \<open>src/cli/commands/demo.cpp\<close> and \<open>src/demo/\<close>: the traffic generators. The operating system is the
  record \<open>demo_env\<close>: the \<open>errno\<close> of the socket calls (if any), the steady clock at each test of the loop
  (nanoseconds since its start) and the success of each \<open>sendto\<close>. What a demo does is the list of
  datagrams it hands to \<open>sendto\<close>, each with its destination. The loops run until the clock says so: they
  are partial functions, and \<open>None\<close> means that the loop does not end. A zero rate reaches an integer
  division by zero, the outcome \<open>Fpe\<close>.
\<close>

section \<open>Options\<close>

record demo_config =
  target_ip :: string
  target_port :: u16
  rate_pps :: u32
  duration_s :: u32
  override_safety :: bool

definition contains :: "string \<Rightarrow> string \<Rightarrow> bool" where
  "contains s sub \<longleftrightarrow> list_ex (\<lambda>i. take (length sub) (drop i s) = sub) [0..<Suc (length s)]"

definition is_permission_error :: "string \<Rightarrow> bool" where
  "is_permission_error message \<longleftrightarrow>
     contains message ''Permission denied'' \<or> contains message ''CAP_NET_RAW''"

definition parse_u32_option :: "string \<Rightarrow> string \<Rightarrow> string \<Rightarrow> u32 result" where
  "parse_u32_option opt v suffix =
     (let bad = Err (''Invalid value for '' @ opt @ '': '' @ v);
          conv = (\<lambda>digits. case stoul digits of
             Inl _ \<Rightarrow> bad
           | Inr (parsed, pos) \<Rightarrow>
               (if pos \<noteq> length digits \<or> parsed > 4294967295 then bad else Ok (of_nat parsed)))
      in if suffix \<noteq> [] \<and> length v > length suffix \<and> drop (length v - length suffix) v = suffix
         then conv (take (length v - length suffix) v)
         else if suffix \<noteq> [] \<and> \<not> (v \<noteq> [] \<and> list_all is_digit v) then bad
         else conv v)"

definition parse_u16_option :: "string \<Rightarrow> string \<Rightarrow> u16 result" where
  "parse_u16_option opt v =
     (case parse_u32_option opt v [] of
        Err e \<Rightarrow> Err e
      | Ok n \<Rightarrow> if n > 65535 then Err (''Invalid value for '' @ opt @ '': '' @ v) else Ok (ucast n))"

definition parse_target_option :: "string \<Rightarrow> demo_config \<Rightarrow> demo_config result" where
  "parse_target_option v cfg =
     (case rfind_char CHR '':'' v of
        None \<Rightarrow> Ok (cfg\<lparr>target_ip := v\<rparr>)
      | Some colon \<Rightarrow>
          (if find_char CHR '':'' v \<noteq> Some colon then Ok (cfg\<lparr>target_ip := v\<rparr>)
           else (let host = take colon v; port = drop (colon + 1) v in
             if host = [] \<or> port = [] then Err (''Invalid value for --target: '' @ v)
             else case parse_u16_option ''--target port'' port of
                    Err e \<Rightarrow> Err e
                  | Ok p \<Rightarrow> Ok (cfg\<lparr>target_ip := host, target_port := p\<rparr>))))"

definition validate_target :: "string \<Rightarrow> bool \<Rightarrow> unit result" where
  "validate_target ip ovr =
     (case inet_pton (c_str ip) of
        None \<Rightarrow> Err (''Invalid IPv4 target address '' @ ip)
      | Some a \<Rightarrow>
          (if ntohl a AND 0xFF000000 \<noteq> 0x7F000000 \<and> \<not> ovr
           then Err (''Refusing to target non-loopback address '' @ ip @ '' without --i-know-what-im-doing'')
           else Ok ()))"

text \<open>The option loop of \<open>cmd_demo\<close>; \<open>None\<close> is its \<open>return 64\<close>.\<close>

fun demo_options :: "string list \<Rightarrow> demo_config \<Rightarrow> demo_config option" where
  "demo_options [] cfg = Some cfg"
| "demo_options (a # rest) cfg =
     (if a = ''--target'' then
        (case rest of
           [] \<Rightarrow> None
         | v # rest' \<Rightarrow> (case parse_target_option v cfg of Err _ \<Rightarrow> None | Ok cfg' \<Rightarrow> demo_options rest' cfg'))
      else if a = ''--port'' then
        (case rest of
           [] \<Rightarrow> None
         | v # rest' \<Rightarrow> (case parse_u16_option ''--port'' v of
             Err _ \<Rightarrow> None | Ok p \<Rightarrow> demo_options rest' (cfg\<lparr>target_port := p\<rparr>)))
      else if a = ''--duration'' then
        (case rest of
           [] \<Rightarrow> None
         | v # rest' \<Rightarrow> (case parse_u32_option ''--duration'' v ''s'' of
             Err _ \<Rightarrow> None | Ok n \<Rightarrow> demo_options rest' (cfg\<lparr>duration_s := n\<rparr>)))
      else if a = ''--rate'' then
        (case rest of
           [] \<Rightarrow> None
         | v # rest' \<Rightarrow> (case parse_u32_option ''--rate'' v ''pps'' of
             Err _ \<Rightarrow> None | Ok n \<Rightarrow> demo_options rest' (cfg\<lparr>rate_pps := n\<rparr>)))
      else if a = ''--i-know-what-im-doing'' then demo_options rest (cfg\<lparr>override_safety := True\<rparr>)
      else None)"

definition demo_config0 :: demo_config where
  "demo_config0 = \<lparr>target_ip = ''127.0.0.1'', target_port = 80, rate_pps = 100, duration_s = 5,
     override_safety = False\<rparr>"

section \<open>Packets\<close>

text \<open>\<open>checksum\<close> of \<open>ping_flood.cpp\<close>: the accumulator is a \<open>uint32_t\<close>.\<close>

definition add_word :: "u32 \<Rightarrow> u16 \<Rightarrow> u32" where
  "add_word acc w = (let s = acc + ucast w in if s > 0xFFFF then s - 0xFFFF else s)"

fun checksum_acc :: "u32 \<Rightarrow> u8 list \<Rightarrow> u32" where
  "checksum_acc acc (a # b # bs) = checksum_acc (add_word acc (ntohs (le16 a b))) bs"
| "checksum_acc acc [a] = add_word acc (ntohs (le16 a 0))"
| "checksum_acc acc [] = acc"

definition checksum :: "u8 list \<Rightarrow> u16" where
  "checksum bs = ntohs (ucast (NOT (checksum_acc 0xFFFF bs)))"

definition echo_bytes :: "u16 \<Rightarrow> u16 \<Rightarrow> u8 list" where
  "echo_bytes cks seq = [8, 0] @ bytes16 cks @ bytes16 (ntohs 1234) @ bytes16 (ntohs seq) @ replicate 56 0"

definition echo_packet :: "u16 \<Rightarrow> u8 list" where
  "echo_packet seq = echo_bytes (checksum (echo_bytes 0 seq)) seq"

text \<open>\<open>csum\<close> of \<open>syn_flood.cpp\<close>: words in machine order, \<open>long\<close> sum, two folds, narrowed to 16 bits.\<close>

fun sum_words :: "u8 list \<Rightarrow> nat" where
  "sum_words (a # b # bs) = unat (le16 a b) + sum_words bs"
| "sum_words [a] = unat (le16 a 0)"
| "sum_words [] = 0"

definition csum :: "u8 list \<Rightarrow> u16" where
  "csum bs =
     (let s0 = sum_words bs; s1 = s0 div 65536 + s0 mod 65536; s2 = s1 + s1 div 65536
      in NOT (of_nat s2))"

text \<open>The IP and TCP headers of one SYN; the fields the source leaves at zero are zero.\<close>

definition syn_ip_header :: "u16 \<Rightarrow> u32 \<Rightarrow> u8 list" where
  "syn_ip_header cks daddr =
     [0x45, 0] @ bytes16 (ntohs 40) @ bytes16 (ntohs 54321) @ [0, 0, 255, 6] @ bytes16 cks @
     [127, 0, 0, 1] @ bytes32 daddr"

definition syn_tcp_header :: "u16 \<Rightarrow> u16 \<Rightarrow> u16 \<Rightarrow> u8 list" where
  "syn_tcp_header cks sport_base tport =
     bytes16 (ntohs sport_base) @ bytes16 (ntohs tport) @ replicate 8 0 @ [0x50, 0x02] @
     bytes16 (ntohs 5840) @ bytes16 cks @ [0, 0]"

definition pseudo_header :: "u32 \<Rightarrow> u8 list" where
  "pseudo_header daddr = [127, 0, 0, 1] @ bytes32 daddr @ [0, 6] @ bytes16 (ntohs 20)"

definition syn_datagram :: "u32 \<Rightarrow> u16 \<Rightarrow> u16 \<Rightarrow> u8 list" where
  "syn_datagram daddr sport_base tport =
     syn_ip_header (csum (syn_ip_header 0 daddr)) daddr @
     syn_tcp_header (csum (pseudo_header daddr @ syn_tcp_header 0 sport_base tport)) sport_base tport"

definition next_sport :: "u16 \<Rightarrow> u16" where
  "next_sport p = (if p + 1 = 0 then 1024 else p + 1)"

section \<open>The generators\<close>

record demo_env =
  socket_errno :: "int option"
  hdrincl_errno :: "int option"
  strerror :: "int \<Rightarrow> string"
  elapsed_ns :: "nat \<Rightarrow> nat"
  send_ok :: "nat \<Rightarrow> bool"

text \<open>
  The sending loop: test the clock, build and send the \<open>k\<close>-th datagram, sleep. \<open>strict\<close> returns at a
  failed \<open>sendto\<close> (only the SYN flood tests it). The result is what was sent and whether the loop ran
  to the end of its duration.
\<close>

partial_function (option) send_loop ::
    "demo_env \<Rightarrow> u32 \<Rightarrow> bool \<Rightarrow> ('s \<Rightarrow> u8 list \<times> 's) \<Rightarrow> nat \<Rightarrow> 's \<Rightarrow> u8 list list \<Rightarrow> (u8 list list \<times> bool) option" where
  "send_loop env dur strict mk k s sent =
     (if elapsed_ns env k div 1000000000 \<ge> unat dur then Some (sent, True)
      else if strict \<and> \<not> send_ok env k then Some (sent @ [fst (mk s)], False)
      else send_loop env dur strict mk (k + 1) (snd (mk s)) (sent @ [fst (mk s)]))"

datatype demo_end = Fpe | Done "unit result" "(u32 \<times> u8 list) list"

definition dest_addr :: "demo_config \<Rightarrow> u32" where
  "dest_addr cfg = (case inet_pton (c_str (target_ip cfg)) of Some a \<Rightarrow> a | None \<Rightarrow> 0)"

definition sends :: "demo_config \<Rightarrow> u8 list list \<Rightarrow> (u32 \<times> u8 list) list" where
  "sends cfg ps = map (\<lambda>p. (dest_addr cfg, p)) ps"

definition sleep_ns :: "demo_config \<Rightarrow> nat" where
  "sleep_ns cfg = 1000000000 div unat (rate_pps cfg)"

definition run_ping_flood :: "demo_env \<Rightarrow> demo_config \<Rightarrow> demo_end option" where
  "run_ping_flood env cfg =
     (case validate_target (target_ip cfg) (override_safety cfg) of
        Err e \<Rightarrow> Some (Done (Err e) [])
      | Ok _ \<Rightarrow>
          (case socket_errno env of
             Some en \<Rightarrow> Some (Done (Err (if en = EPERM \<or> en = EACCES
                 then ''Permission denied creating raw ICMP socket. Need root or CAP_NET_RAW.''
                 else ''Failed to create raw ICMP socket: '' @ strerror env en)) [])
           | None \<Rightarrow>
               (if rate_pps cfg = 0 then Some Fpe
                else map_option (\<lambda>(ps, _). Done (Ok ()) (sends cfg ps))
                  (send_loop env (duration_s cfg) False (\<lambda>seq. (echo_packet seq, seq + 1)) 0 (0 :: u16) []))))"

definition run_udp_storm :: "demo_env \<Rightarrow> demo_config \<Rightarrow> demo_end option" where
  "run_udp_storm env cfg =
     (case validate_target (target_ip cfg) (override_safety cfg) of
        Err e \<Rightarrow> Some (Done (Err e) [])
      | Ok _ \<Rightarrow>
          (case socket_errno env of
             Some en \<Rightarrow> Some (Done (Err ''Failed to create UDP socket'') [])
           | None \<Rightarrow>
               (if rate_pps cfg = 0 then Some Fpe
                else map_option (\<lambda>(ps, _). Done (Ok ()) (sends cfg ps))
                  (send_loop env (duration_s cfg) False (\<lambda>_. (replicate 1024 65, ())) 0 () []))))"

definition run_syn_flood :: "demo_env \<Rightarrow> demo_config \<Rightarrow> demo_end option" where
  "run_syn_flood env cfg =
     (case validate_target (target_ip cfg) (override_safety cfg) of
        Err e \<Rightarrow> Some (Done (Err e) [])
      | Ok _ \<Rightarrow>
          (case socket_errno env of
             Some en \<Rightarrow> Some (Done (Err (if en = EPERM \<or> en = EACCES
                 then ''Permission denied creating raw TCP socket. Need root or CAP_NET_RAW.''
                 else ''Failed to create raw TCP socket: '' @ strerror env en)) [])
           | None \<Rightarrow>
               (case hdrincl_errno env of
                  Some en \<Rightarrow> Some (Done (Err (if en = EPERM \<or> en = EACCES
                      then ''Permission denied enabling IP_HDRINCL. Need root or CAP_NET_RAW.''
                      else ''Failed to set IP_HDRINCL'')) [])
                | None \<Rightarrow>
                    (if rate_pps cfg = 0 then Some Fpe
                     else map_option (\<lambda>(ps, fin). Done (if fin then Ok () else Err ''sendto failed'') (sends cfg ps))
                       (send_loop env (duration_s cfg) True
                          (\<lambda>p. (syn_datagram (dest_addr cfg) p (target_port cfg), next_sport p)) 0 (1024 :: u16) [])))))"

text \<open>\<open>cmd_demo\<close>: exit status and what was sent; the inner \<open>None\<close> is a division by zero.\<close>

definition run_scenario :: "build \<Rightarrow> demo_env \<Rightarrow> string \<Rightarrow> demo_config \<Rightarrow> demo_end option option" where
  "run_scenario b env scenario cfg =
     (if scenario = ''ping-flood'' then Some (run_ping_flood env cfg)
      else if scenario = ''udp-storm'' then Some (run_udp_storm env cfg)
      else if with_experimental b \<and> scenario = ''syn-flood'' then Some (run_syn_flood env cfg)
      else None)"

definition demo_exit :: "demo_end \<Rightarrow> int option \<times> (u32 \<times> u8 list) list" where
  "demo_exit d =
     (case d of
        Fpe \<Rightarrow> (None, [])
      | Done (Ok _) ps \<Rightarrow> (Some 0, ps)
      | Done (Err e) ps \<Rightarrow> (Some (if is_permission_error e then 77 else 125), ps))"

definition cmd_demo ::
    "build \<Rightarrow> demo_env \<Rightarrow> string list \<Rightarrow> (int option \<times> (u32 \<times> u8 list) list) option" where
  "cmd_demo b env args =
     (case args of
        [] \<Rightarrow> Some (Some 64, [])
      | scenario # opts \<Rightarrow>
          (case demo_options opts demo_config0 of
             None \<Rightarrow> Some (Some 64, [])
           | Some cfg \<Rightarrow>
               (if rate_pps cfg = 0 \<or> duration_s cfg = 0 then Some (Some 64, [])
                else case validate_target (target_ip cfg) (override_safety cfg) of
                  Err _ \<Rightarrow> Some (Some 64, [])
                | Ok _ \<Rightarrow>
                    (case run_scenario b env scenario cfg of
                       None \<Rightarrow> Some (Some 64, [])
                     | Some r \<Rightarrow> map_option demo_exit r))))"

section \<open>The sending loop\<close>

fun datagrams :: "('s \<Rightarrow> u8 list \<times> 's) \<Rightarrow> nat \<Rightarrow> 's \<Rightarrow> u8 list list" where
  "datagrams mk 0 s = []"
| "datagrams mk (Suc n) s = fst (mk s) # datagrams mk n (snd (mk s))"

lemma length_datagrams [simp]: "length (datagrams mk n s) = n"
  by (induction n arbitrary: s) simp_all

lemma send_loop_total:
  "elapsed_ns env (k + n) div 1000000000 \<ge> unat dur \<Longrightarrow>
     \<exists>m \<le> n. \<exists>fin. send_loop env dur strict mk k s sent = Some (sent @ datagrams mk m s, fin) \<and> (\<not> strict \<longrightarrow> fin)"
proof (induction n arbitrary: k s sent)
  case 0
  then show ?case by (subst send_loop.simps) (auto intro!: exI[of _ 0])
next
  case (Suc n)
  consider (stop) "elapsed_ns env k div 1000000000 \<ge> unat dur"
    | (fail) "\<not> elapsed_ns env k div 1000000000 \<ge> unat dur" "strict" "\<not> send_ok env k"
    | (go) "\<not> elapsed_ns env k div 1000000000 \<ge> unat dur" "\<not> (strict \<and> \<not> send_ok env k)" by blast
  then show ?case
  proof cases
    case stop
    then show ?thesis by (subst send_loop.simps) (auto intro!: exI[of _ 0])
  next
    case fail
    then show ?thesis by (subst send_loop.simps) (auto intro!: exI[of _ "Suc 0"])
  next
    case go
    from Suc.IH[of "k + 1" "snd (mk s)" "sent @ [fst (mk s)]"] Suc.prems
    obtain m fin where "m \<le> n" "send_loop env dur strict mk (k + 1) (snd (mk s)) (sent @ [fst (mk s)]) =
        Some (sent @ [fst (mk s)] @ datagrams mk m (snd (mk s)), fin)" "\<not> strict \<longrightarrow> fin" by auto
    with go show ?thesis by (subst send_loop.simps) (auto intro!: exI[of _ "Suc m"])
  qed
qed

text \<open>Each turn of the loop takes at least the sleep.\<close>

definition paced :: "demo_env \<Rightarrow> nat \<Rightarrow> bool" where
  "paced env step \<longleftrightarrow> (\<forall>k. k * step \<le> elapsed_ns env k)"

definition max_sends :: "demo_config \<Rightarrow> nat" where
  "max_sends cfg = unat (duration_s cfg) * 1000000000 div sleep_ns cfg + 1"

lemma paced_stops:
  assumes "paced env (sleep_ns cfg)" "0 < sleep_ns cfg"
  shows "elapsed_ns env (max_sends cfg) div 1000000000 \<ge> unat (duration_s cfg)"
proof -
  let ?d = "unat (duration_s cfg) * 1000000000" and ?s = "sleep_ns cfg"
  have "?d < Suc (?d div ?s) * ?s"
    using assms(2) by (metis dividend_less_div_times mult.commute mult_Suc)
  also have "\<dots> \<le> elapsed_ns env (max_sends cfg)" using assms(1) unfolding paced_def max_sends_def Suc_eq_plus1 by blast
  finally have "?d div 1000000000 \<le> elapsed_ns env (max_sends cfg) div 1000000000"
    by (intro div_le_mono) simp
  then show ?thesis by simp
qed

lemma loop_bounded:
  assumes "paced env (sleep_ns cfg)" "0 < sleep_ns cfg"
  obtains ps fin where "send_loop env (duration_s cfg) strict mk 0 s [] = Some (ps, fin)"
    "length ps \<le> max_sends cfg" "\<not> strict \<longrightarrow> fin"
  using send_loop_total[of "duration_s cfg" env 0 "max_sends cfg" strict mk s "[]"] paced_stops[OF assms] that
  by auto

section \<open>What the command does\<close>

lemma set_sends: "x \<in> set (sends cfg ps) \<Longrightarrow> fst x = dest_addr cfg"
  by (auto simp: sends_def)

lemma length_sends [simp]: "length (sends cfg ps) = length ps"
  by (simp add: sends_def)

text \<open>The three generators alike: an error, a crash at rate zero, or the loop.\<close>

lemma scenario_cases:
  assumes "run_scenario b env scenario cfg = Some r"
  obtains (refused) e where "r = Some (Done (Err e) [])"
  | (crash) "r = Some Fpe" "rate_pps cfg = 0"
  | (ping) "rate_pps cfg \<noteq> 0" "map_option (\<lambda>(ps, _). Done (Ok ()) (sends cfg ps))
      (send_loop env (duration_s cfg) False (\<lambda>seq. (echo_packet seq, seq + 1)) 0 0 []) = r"
  | (udp) "rate_pps cfg \<noteq> 0" "map_option (\<lambda>(ps, _). Done (Ok ()) (sends cfg ps))
      (send_loop env (duration_s cfg) False (\<lambda>_. (replicate 1024 65, ())) 0 () []) = r"
  | (syn) "rate_pps cfg \<noteq> 0" "map_option (\<lambda>(ps, fin). Done (if fin then Ok () else Err ''sendto failed'') (sends cfg ps))
      (send_loop env (duration_s cfg) True
        (\<lambda>p. (syn_datagram (dest_addr cfg) p (target_port cfg), next_sport p)) 0 1024 []) = r"
  using assms unfolding run_scenario_def run_ping_flood_def run_udp_storm_def run_syn_flood_def
  by (auto split: if_split_asm result.splits option.splits)

lemma scenario_dest:
  assumes "run_scenario b env scenario cfg = Some (Some (Done q ps))" "x \<in> set ps"
  shows "fst x = dest_addr cfg"
  using assms(1) by (cases rule: scenario_cases) (use assms(2) in \<open>auto dest: set_sends\<close>)

lemma scenario_no_crash:
  "run_scenario b env scenario cfg = Some (Some d) \<Longrightarrow> rate_pps cfg \<noteq> 0 \<Longrightarrow> d \<noteq> Fpe"
  by (cases rule: scenario_cases[of b env scenario cfg "Some d"]) auto

lemma scenario_ends:
  assumes "run_scenario b env scenario cfg = Some r" "rate_pps cfg \<noteq> 0"
    and "paced env (sleep_ns cfg)" "0 < sleep_ns cfg"
  shows "\<exists>q ps. r = Some (Done q ps) \<and> length ps \<le> max_sends cfg"
  using assms(1)
proof (cases rule: scenario_cases)
  case ping
  obtain ps fin where "send_loop env (duration_s cfg) False (\<lambda>seq. (echo_packet seq, seq + 1)) 0 0 [] = Some (ps, fin)"
    "length ps \<le> max_sends cfg" by (rule loop_bounded[OF assms(3,4)])
  with ping show ?thesis by auto
next
  case udp
  obtain ps fin where "send_loop env (duration_s cfg) False (\<lambda>_. (replicate 1024 65, ())) 0 () [] = Some (ps, fin)"
    "length ps \<le> max_sends cfg" by (rule loop_bounded[OF assms(3,4)])
  with udp show ?thesis by auto
next
  case syn
  obtain ps fin where "send_loop env (duration_s cfg) True
      (\<lambda>p. (syn_datagram (dest_addr cfg) p (target_port cfg), next_sport p)) 0 1024 [] = Some (ps, fin)"
    "length ps \<le> max_sends cfg" by (rule loop_bounded[OF assms(3,4)])
  with syn show ?thesis by auto
qed (use assms(2) in auto)

lemma demo_options_override:
  "demo_options opts cfg = Some cfg' \<Longrightarrow> override_safety cfg' \<Longrightarrow>
     override_safety cfg \<or> ''--i-know-what-im-doing'' \<in> set opts"
proof (induction opts cfg rule: demo_options.induct)
  case (2 a rest cfg)
  have tgt: "parse_target_option v cfg = Ok c \<Longrightarrow> override_safety c = override_safety cfg" for v c
    by (auto simp: parse_target_option_def Let_def split: option.splits if_splits result.splits)
  show ?case using 2 tgt by (auto split: if_split_asm list.splits result.splits)
qed simp

lemma byte_at_and: "byte_at i (x AND y) = byte_at i x AND byte_at i y"
  by (rule bit_word_eqI) (auto simp: bit_byte_at bit_simps)

lemma byte_eq_iff:
  "x = y \<longleftrightarrow> byte_at 0 x = byte_at 0 y \<and> byte_at 1 x = byte_at 1 y \<and> byte_at 2 x = byte_at 2 y \<and>
     byte_at 3 x = byte_at 3 y" for x y :: u32
  by (metis One_nat_def le32_bytes)

lemma loopback_byte: "ntohl a AND 0xFF000000 = 0x7F000000 \<longleftrightarrow> byte_at 0 a = 127"
proof -
  have m: "byte_at 0 (0xFF000000 :: u32) = 0" "byte_at 1 (0xFF000000 :: u32) = 0"
    "byte_at 2 (0xFF000000 :: u32) = 0" "byte_at 3 (0xFF000000 :: u32) = - 1"
    "byte_at 0 (0x7F000000 :: u32) = 0" "byte_at 1 (0x7F000000 :: u32) = 0"
    "byte_at 2 (0x7F000000 :: u32) = 0" "byte_at 3 (0x7F000000 :: u32) = 127"
    by (simp_all add: byte_at_def)
  show ?thesis unfolding byte_eq_iff[of "ntohl a AND 0xFF000000"] byte_at_and m by (simp add: ntohl_def)
qed

section \<open>Checksums\<close>

text \<open>The sum of the 16-bit big-endian words of a datagram, which RFC 1071 tests modulo \<open>2 ^ 16 - 1\<close>.\<close>

fun be_sum :: "u8 list \<Rightarrow> nat" where
  "be_sum (a # b # bs) = unat (le16 b a) + be_sum bs"
| "be_sum [a] = unat (le16 0 a)"
| "be_sum [] = 0"

lemma unat_le16: "unat (le16 a b) = unat a + 256 * unat b"
proof -
  have "(ucast a :: u16) AND push_bit 8 (ucast b) = 0"
    using bit_imp_le_length[of a] by (intro bit_word_eqI) (auto simp: bit_simps dest!: bit_imp_le_length)
  then have "le16 a b = ucast a + push_bit 8 (ucast b)"
    by (simp add: le16_def disjunctive_add_eq_or)
  then have "le16 a b = ucast a + ucast b * 256" by (simp add: push_bit_eq_mult)
  moreover have "unat (ucast a :: u16) = unat a" "unat (ucast b :: u16) = unat b"
    using unat_bound(1)[of a] unat_bound(1)[of b] by (simp_all add: unsigned_ucast_eq take_bit_nat_eq_self)
  ultimately show ?thesis using unat_bound(1)[of a] unat_bound(1)[of b] by (simp add: unat_word_ariths)
qed

lemma ntohs_swap: "ntohs (le16 a b) = le16 b a"
  by (simp add: ntohs_def)

lemma be_sum_append: "even (length xs) \<Longrightarrow> be_sum (xs @ ys) = be_sum xs + be_sum ys"
  by (induction xs rule: be_sum.induct) auto

lemma sum_words_append: "even (length xs) \<Longrightarrow> sum_words (xs @ ys) = sum_words xs + sum_words ys"
  by (induction xs rule: sum_words.induct) auto

lemma be_sum_ntohs [simp]: "be_sum (bytes16 (ntohs x)) = unat x"
proof -
  have "byte_at 0 (ntohs x) = byte_at 1 x" "byte_at 1 (ntohs x) = byte_at 0 x" by (simp_all add: ntohs_def)
  then show ?thesis by (simp add: bytes16_def)
qed

lemma sum_words_bytes16 [simp]: "sum_words (bytes16 x) = unat x"
  by (simp add: bytes16_def)

lemma unat_not: "unat (NOT w) = 2 ^ LENGTH('a) - 1 - unat w" for w :: "'a::len word"
proof -
  have "NOT w = - 1 - w" by (simp add: not_eq_complement)
  moreover have "unat (- 1 - w) = unat (- 1 :: 'a word) - unat w" by (rule unat_sub) simp
  ultimately show ?thesis by (simp add: unsigned_minus_1_eq_mask mask_eq_exp_minus_1)
qed

lemma unat_add_word:
  assumes "1 \<le> unat acc" "unat acc \<le> 65535"
  shows "unat (add_word acc w) mod 65535 = (unat acc + unat w) mod 65535"
    "1 \<le> unat (add_word acc w)" "unat (add_word acc w) \<le> 65535"
proof -
  have "unat (ucast w :: u32) = unat w" using unat_bound(2)[of w] by (simp add: unsigned_ucast_eq take_bit_nat_eq_self)
  then have s: "unat (acc + ucast w) = unat acc + unat w"
    using assms unat_bound(2)[of w] by (simp add: unat_word_ariths)
  have d: "unat (acc + ucast w - 0xFFFF) = unat acc + unat w - 65535" if "acc + ucast w > 0xFFFF"
    using that s by (simp add: unat_sub word_le_nat_alt word_less_nat_alt)
  show "unat (add_word acc w) mod 65535 = (unat acc + unat w) mod 65535"
    using s d by (auto simp: add_word_def Let_def word_less_nat_alt le_mod_geq)
  show "1 \<le> unat (add_word acc w)" "unat (add_word acc w) \<le> 65535"
    using s d assms unat_bound(2)[of w] by (auto simp: add_word_def Let_def word_less_nat_alt)
qed

lemma checksum_acc_sum:
  "1 \<le> unat acc \<Longrightarrow> unat acc \<le> 65535 \<Longrightarrow>
     unat (checksum_acc acc bs) mod 65535 = (unat acc + be_sum bs) mod 65535 \<and> unat (checksum_acc acc bs) \<le> 65535"
proof (induction acc bs rule: checksum_acc.induct)
  case (1 acc a b bs)
  note w = unat_add_word[OF "1.prems", of "le16 b a"]
  have "unat (checksum_acc (add_word acc (le16 b a)) bs) mod 65535 = (unat (add_word acc (le16 b a)) + be_sum bs) mod 65535"
    using "1.IH" w by (simp add: ntohs_swap)
  also have "\<dots> = (unat acc + unat (le16 b a) + be_sum bs) mod 65535"
    using w(1) by (metis mod_add_left_eq)
  finally show ?case using "1.IH" w by (simp add: ntohs_swap add.assoc)
next
  case (2 acc a)
  then show ?case using unat_add_word[OF "2.prems", of "le16 0 a"] by (simp add: ntohs_swap)
qed simp

lemma checksum_sum: "(be_sum bs + unat (ntohs (checksum bs))) mod 65535 = 0"
proof -
  let ?acc = "checksum_acc 0xFFFF bs"
  have acc: "unat ?acc mod 65535 = be_sum bs mod 65535" "unat ?acc \<le> 65535"
    using checksum_acc_sum[of "0xFFFF" bs] by (simp_all add: mod_add_left_eq[of 65535, symmetric])
  have "ntohs (ntohs w) = w" for w
    by (simp add: ntohs_def)
  then have "unat (ntohs (checksum bs)) = unat (ucast (NOT ?acc) :: u16)" by (simp add: checksum_def)
  also have "(ucast (NOT ?acc) :: u16) = NOT (ucast ?acc)"
    by (rule bit_word_eqI) (auto simp: bit_simps)
  also have "unat \<dots> = 65535 - unat ?acc"
    using acc(2) by (simp add: unat_not unsigned_ucast_eq take_bit_nat_eq_self)
  finally have "(be_sum bs + unat (ntohs (checksum bs))) mod 65535 = (unat ?acc + (65535 - unat ?acc)) mod 65535"
    using acc(1) by (metis mod_add_left_eq)
  then show ?thesis using acc(2) by simp
qed

lemma sum_words_bound: "sum_words bs \<le> 65535 * length bs"
proof (induction bs rule: sum_words.induct)
  case (1 a b bs)
  then show ?case using unat_bound(2)[of "le16 a b"] by simp
next
  case (2 a)
  then show ?case using unat_bound(2)[of "le16 a 0"] by simp
qed simp

lemma fold_carry:
  fixes s0 :: nat
  assumes "s0 \<le> 65535 * 65535" "s1 = s0 div 65536 + s0 mod 65536" "s2 = s1 + s1 div 65536"
  shows "(s0 + (65535 - s2 mod 65536)) mod 65535 = 0"
proof -
  have s0: "s0 = 65536 * (s0 div 65536) + s0 mod 65536" by simp
  have "s0 div 65536 \<le> 65535 * 65535 div 65536" using assms(1) by (rule div_le_mono)
  then have q: "s0 div 65536 \<le> 65534" by simp
  define r where "r = s2 mod 65536"
  have "s0 mod 65536 \<le> 65535" by (simp add: less_Suc_eq_le[symmetric])
  then have s1: "s1 \<le> 131069" using assms(2) q by simp
  have r: "r \<le> 65535" by (simp add: r_def less_Suc_eq_le[symmetric])
  have "s1 = r \<or> s1 = r + 65535"
  proof (cases "s1 < 65536")
    case False
    then have "s1 div 65536 = 1" using s1 by (intro div_nat_eqI) simp_all
    then have "r = (s1 + 1) mod 65536" by (simp add: r_def assms(3))
    also have "\<dots> = s1 + 1 - 65536" using False s1 by (simp add: le_mod_geq)
    finally show ?thesis using False by simp
  qed (simp add: r_def assms(3))
  moreover have "s0 = 65535 * (s0 div 65536) + s1" using s0 assms(2) by simp
  ultimately have "s0 + (65535 - r) = 65535 * (s0 div 65536 + 1) \<or> s0 + (65535 - r) = 65535 * (s0 div 65536 + 2)"
    using r by auto
  then show ?thesis unfolding r_def[symmetric] by (metis mod_mult_self1_is_0)
qed

lemma csum_sum: "length bs \<le> 65535 \<Longrightarrow> (sum_words bs + unat (csum bs)) mod 65535 = 0"
proof -
  assume "length bs \<le> 65535"
  then have b: "sum_words bs \<le> 65535 * 65535" using sum_words_bound[of bs] by simp
  have "unat (NOT (of_nat n :: u16)) = 65535 - n mod 65536" for n by (simp add: unat_not unat_of_nat)
  then show ?thesis unfolding csum_def Let_def using fold_carry[OF b refl refl] by (simp only:)
qed

lemma be_sum_words: "even (length bs) \<Longrightarrow> be_sum bs mod 65535 = 256 * sum_words bs mod 65535"
proof (induction bs rule: be_sum.induct)
  case (1 a b bs)
  have w: "unat (le16 b a) + 65535 * unat b = 256 * unat (le16 a b)" by (simp add: unat_le16)
  have "256 * sum_words (a # b # bs) mod 65535 = (256 * unat (le16 a b) + 256 * sum_words bs) mod 65535"
    by (simp add: distrib_left)
  also have "\<dots> = (unat (le16 b a) + 256 * sum_words bs) mod 65535"
    unfolding w[symmetric] add.assoc add.commute[of "65535 * unat b"] unfolding add.assoc[symmetric]
    by (rule mod_mult_self2)
  also have "\<dots> = (unat (le16 b a) + be_sum bs) mod 65535" using 1 by (metis even_Suc_Suc_iff length_Cons mod_add_right_eq)
  finally show ?case by simp
qed simp_all

lemma be_sum_zero: "even (length bs) \<Longrightarrow> sum_words bs mod 65535 = 0 \<Longrightarrow> be_sum bs mod 65535 = 0"
  unfolding be_sum_words by (metis mod_mult_right_eq mult_0_right mod_0)

lemma length_bytes [simp]: "length (bytes16 x) = 2" "length (bytes32 y) = 4"
  by (simp_all add: bytes16_def bytes32_def)

lemma echo_be_sum: "be_sum (echo_bytes (ntohs x) seq) = be_sum (echo_bytes 0 seq) + unat x"
proof -
  have z: "be_sum (bytes16 0) = 0" by (simp add: bytes16_def byte_at_def le16_def)
  show ?thesis by (simp add: echo_bytes_def be_sum_append z del: be_sum.simps append_Cons append.simps)
qed

lemma even_bytes [simp]: "even (length (syn_ip_header c d))" "even (length (syn_tcp_header c p q))"
  "even (length (pseudo_header d))" "length (syn_ip_header c d) = 20" "length (syn_tcp_header c p q) = 20"
  "length (pseudo_header d) = 12"
  by (simp_all add: syn_ip_header_def syn_tcp_header_def pseudo_header_def)

lemma sum_words_zero: "sum_words (bytes16 0) = 0"
  by simp

lemma syn_ip_sum: "sum_words (syn_ip_header c d) = sum_words (syn_ip_header 0 d) + unat c"
  by (simp add: syn_ip_header_def sum_words_append del: sum_words.simps append_Cons append.simps)

lemma syn_tcp_sum: "sum_words (syn_tcp_header c p q) = sum_words (syn_tcp_header 0 p q) + unat c"
  by (simp add: syn_tcp_header_def sum_words_append del: sum_words.simps append_Cons append.simps)

section \<open>Properties\<close>

text \<open>
  Property C37. \<open>kwatch demo\<close> never sends a datagram to an address outside \<open>127.0.0.0/8\<close> unless
  \<open>--i-know-what-im-doing\<close> is among its arguments, never divides by zero, and exits with 0, 64, 77 or
  125 only.
\<close>

theorem demo_safe_target:
  assumes "cmd_demo b env args = Some (code, sent)"
  shows "(code = Some 0 \<or> code = Some 64 \<or> code = Some 77 \<or> code = Some 125) \<and>
    (\<forall>(daddr, bytes) \<in> set sent. byte_at 0 daddr = 127 \<or> ''--i-know-what-im-doing'' \<in> set args)"
proof (cases "sent = [] \<and> code = Some 64")
  case False
  with assms obtain sc opts cfg d where a: "args = sc # opts" "demo_options opts demo_config0 = Some cfg"
    "rate_pps cfg \<noteq> 0" "validate_target (target_ip cfg) (override_safety cfg) = Ok ()"
    "run_scenario b env sc cfg = Some (Some d)" "demo_exit d = (code, sent)"
    by (auto simp: cmd_demo_def split: list.splits option.splits if_splits result.splits)
  then obtain q where d: "d = Done q sent" and code: "code = Some 0 \<or> code = Some 77 \<or> code = Some 125"
    using scenario_no_crash[OF a(5,3)] by (auto simp: demo_exit_def split: demo_end.splits result.splits if_splits)
  have "byte_at 0 (dest_addr cfg) = 127 \<or> ''--i-know-what-im-doing'' \<in> set args"
    using a(4) demo_options_override[OF a(2)] a(1) loopback_byte
    by (auto simp: validate_target_def dest_addr_def demo_config0_def split: option.splits if_splits)
  with code show ?thesis using scenario_dest[OF a(5)[unfolded d]] by (auto dest!: spec)
qed simp

definition quick_env :: demo_env where
  "quick_env = \<lparr>socket_errno = None, hdrincl_errno = None, strerror = (\<lambda>_. []),
     elapsed_ns = (\<lambda>k. k * 1000000000), send_ok = (\<lambda>_. True)\<rparr>"

lemma quick_demo:
  "\<exists>sent. cmd_demo plain_build quick_env [''ping-flood'', ''--rate'', ''1pps'', ''--duration'', ''2s''] = Some (Some 0, sent) \<and>
     length sent = 2"
proof -
  have opts: "demo_options [''--rate'', ''1pps'', ''--duration'', ''2s''] demo_config0 =
      Some (demo_config0\<lparr>rate_pps := 1, duration_s := 2\<rparr>)"
    by (simp add: parse_u32_option_def stoul_def scan_number_def is_space_def is_digit_def nat_of_dec_def digit_val_def)
  have pton: "inet_pton ''127.0.0.1'' = Some (le32 127 0 0 1)"
    by (simp add: inet_pton_def octet_ok_def octet_def is_digit_def nat_of_dec_def digit_val_def)
  have val: "validate_target ''127.0.0.1'' False = Ok ()"
    using loopback_byte[of "le32 127 0 0 1"] by (simp add: validate_target_def c_str_def pton)
  show ?thesis unfolding cmd_demo_def list.case opts option.case
    by (simp add: val run_scenario_def run_ping_flood_def demo_config0_def demo_exit_def
        quick_env_def send_loop.simps sends_def)
qed

theorem demo_safe_target_witness:
  "\<exists>code sent. cmd_demo plain_build quick_env [''ping-flood'', ''--rate'', ''1pps'', ''--duration'', ''2s''] =
     Some (code, sent) \<and> length sent = 2 \<and> list_all (\<lambda>(daddr, bytes). byte_at 0 daddr = 127) sent"
proof -
  obtain sent where s: "cmd_demo plain_build quick_env [''ping-flood'', ''--rate'', ''1pps'', ''--duration'', ''2s'']
      = Some (Some 0, sent)" "length sent = 2" using quick_demo by blast
  from demo_safe_target[OF s(1)] have "list_all (\<lambda>(daddr, bytes). byte_at 0 daddr = 127) sent"
    by (auto simp: list_all_iff)
  with s show ?thesis by blast
qed

text \<open>
  Property C38. Every demo ends and is bounded: when the clock advances by at least the sleep
  between two sends and the rate is at most a thousand million packets per second, the command returns,
  and it sends at most one datagram more than the duration divided by the sleep.
\<close>

theorem demo_bounded:
  assumes "demo_options opts demo_config0 = Some cfg" "paced env (sleep_ns cfg)" "unat (rate_pps cfg) \<le> 1000000000"
  shows "\<exists>code sent. cmd_demo b env (scenario # opts) = Some (Some code, sent) \<and>
    length sent \<le> unat (duration_s cfg) * 1000000000 div sleep_ns cfg + 1"
proof -
  have fin: "length sent \<le> max_sends cfg \<Longrightarrow> ?thesis"
    if "cmd_demo b env (scenario # opts) = Some (Some code, sent)" for code sent
    using that by (auto simp: max_sends_def)
  consider (usage) "cmd_demo b env (scenario # opts) = Some (Some 64, [])"
    | (runs) r where "rate_pps cfg \<noteq> 0" "run_scenario b env scenario cfg = Some r"
      "cmd_demo b env (scenario # opts) = map_option demo_exit r"
    using assms(1)
    by (cases "rate_pps cfg = 0 \<or> duration_s cfg = 0"; cases "validate_target (target_ip cfg) (override_safety cfg)";
        cases "run_scenario b env scenario cfg") (simp_all add: cmd_demo_def)
  then show ?thesis
  proof cases
    case runs
    have "0 < sleep_ns cfg" using runs(1) assms(3) by (simp add: sleep_ns_def div_greater_zero_iff unat_gt_0)
    from scenario_ends[OF runs(2,1) assms(2) this] obtain q ps where r: "r = Some (Done q ps)" "length ps \<le> max_sends cfg"
      by blast
    obtain code where "demo_exit (Done q ps) = (Some code, ps)" by (cases q) (simp_all add: demo_exit_def)
    with runs(3) r show ?thesis using fin[of code ps] by simp
  qed (use fin in simp)
qed

theorem demo_bounded_witness:
  "\<exists>code sent. cmd_demo plain_build quick_env [''udp-storm''] = Some (Some code, sent) \<and> length sent \<le> 501"
proof -
  have "paced quick_env (sleep_ns demo_config0)" by (simp add: paced_def quick_env_def sleep_ns_def demo_config0_def)
  with demo_bounded[of "[]" demo_config0 quick_env plain_build "''udp-storm''"]
  show ?thesis by (simp add: sleep_ns_def demo_config0_def)
qed

text \<open>
  The datagrams of the demos carry valid checksums: every ICMP echo, the IPv4
  header of every SYN, and its TCP header together with the pseudo header sum to zero modulo \<open>2 ^ 16 - 1\<close>
  in network byte order, for every sequence number, port and destination.
\<close>

theorem demo_checksums_valid:
  "be_sum (echo_packet seq) mod 65535 = 0 \<and>
   be_sum (take 20 (syn_datagram daddr p q)) mod 65535 = 0 \<and>
   be_sum (pseudo_header daddr @ drop 20 (syn_datagram daddr p q)) mod 65535 = 0"
proof (intro conjI)
  have "echo_packet seq = echo_bytes (ntohs (ntohs (checksum (echo_bytes 0 seq)))) seq"
    by (simp add: echo_packet_def ntohs_def)
  then show "be_sum (echo_packet seq) mod 65535 = 0" using checksum_sum[of "echo_bytes 0 seq"] by (simp only: echo_be_sum)
  have "sum_words (syn_ip_header (csum (syn_ip_header 0 daddr)) daddr) mod 65535 = 0"
    using csum_sum[of "syn_ip_header 0 daddr"] by (simp add: syn_ip_sum[of "csum _"])
  then show "be_sum (take 20 (syn_datagram daddr p q)) mod 65535 = 0"
    by (simp add: syn_datagram_def be_sum_zero)
  let ?c = "csum (pseudo_header daddr @ syn_tcp_header 0 p q)"
  have "sum_words (pseudo_header daddr @ syn_tcp_header ?c p q) mod 65535 = 0"
    using csum_sum[of "pseudo_header daddr @ syn_tcp_header 0 p q"]
    by (simp add: sum_words_append syn_tcp_sum[of ?c] add.assoc)
  then show "be_sum (pseudo_header daddr @ drop 20 (syn_datagram daddr p q)) mod 65535 = 0"
    by (simp add: syn_datagram_def be_sum_zero)
qed

end
