(* ===== verification/KW_Pin.thy ===== *)
theory KW_Pin
  imports KW_Event "HOL-Library.AList"
begin

text \<open>
  \<open>src/bpf/pin_state.cpp\<close> and the file side of \<open>src/bpf/skeleton.cpp\<close>: who owns the pinned maps of an
  interface. The file system is the record \<open>host\<close>: regular files (and pinned BPF objects) with their
  contents, directories, and \<open>fault\<close>, which makes a call on a path fail with an arbitrary error; the
  system calls behave as POSIX documents them. The first line of \<open>/proc/<pid>/stat\<close> is read through a
  function from process ids. \<open>bpf_object__pin_maps\<close> and \<open>unpin_maps\<close> of libbpf are the parameter
  \<open>libbpf\<close>, and the results of opening and loading the skeleton are arguments of \<open>open_and_load\<close>. Log
  lines are not modelled.
\<close>

section \<open>The host\<close>

record host =
  h_files :: "(string \<times> string) list"
  h_dirs :: "string list"
  h_fault :: "string \<Rightarrow> string \<Rightarrow> nat option"

definition parent_dir :: "string \<Rightarrow> string" where
  "parent_dir path = (case rfind_char CHR ''/'' path of None \<Rightarrow> [] | Some slash \<Rightarrow> take slash path)"

text \<open>The paths of the entries of a directory other than \<open>.\<close> and \<open>..\<close>, as \<open>readdir\<close> lists them.\<close>

definition dir_entries :: "string \<Rightarrow> host \<Rightarrow> string list" where
  "dir_entries d h = filter (\<lambda>p. parent_dir p = d) (map fst (h_files h) @ h_dirs h)"

text \<open>System calls return 0 or an \<open>errno\<close>.\<close>

definition sys_unlink :: "string \<Rightarrow> host \<Rightarrow> int \<times> host" where
  "sys_unlink p h =
     (case h_fault h ''unlink'' p of
        Some e \<Rightarrow> (int (Suc e), h)
      | None \<Rightarrow>
          (if map_of (h_files h) p \<noteq> None then (0, h\<lparr>h_files := AList.delete p (h_files h)\<rparr>)
           else if p \<in> set (h_dirs h) then (EISDIR, h)
           else if map_of (h_files h) (parent_dir p) \<noteq> None then (ENOTDIR, h) else (ENOENT, h)))"

definition sys_rmdir :: "string \<Rightarrow> host \<Rightarrow> int \<times> host" where
  "sys_rmdir p h =
     (case h_fault h ''rmdir'' p of
        Some e \<Rightarrow> (int (Suc e), h)
      | None \<Rightarrow>
          (if p \<notin> set (h_dirs h)
           then (if map_of (h_files h) p \<noteq> None \<or> map_of (h_files h) (parent_dir p) \<noteq> None then ENOTDIR else ENOENT, h)
           else if dir_entries p h \<noteq> [] then (ENOTEMPTY, h)
           else (0, h\<lparr>h_dirs := removeAll p (h_dirs h)\<rparr>)))"

definition sys_mkdir :: "string \<Rightarrow> host \<Rightarrow> int \<times> host" where
  "sys_mkdir p h =
     (case h_fault h ''mkdir'' p of
        Some e \<Rightarrow> (int (Suc e), h)
      | None \<Rightarrow>
          (if p \<in> set (h_dirs h) \<or> map_of (h_files h) p \<noteq> None then (EEXIST, h)
           else if parent_dir p \<notin> set (h_dirs h) then (ENOENT, h)
           else (0, h\<lparr>h_dirs := h_dirs h @ [p]\<rparr>)))"

definition is_directory :: "string \<Rightarrow> host \<Rightarrow> bool" where
  "is_directory p h \<longleftrightarrow> h_fault h ''stat'' p = None \<and> p \<in> set (h_dirs h)"

section \<open>Owner state\<close>

record owner_state =
  owner_pid :: int
  start_time_ticks :: u64

record proc_stat =
  ps_state :: char
  ps_start :: u64

definition pin_path_for_iface :: "string \<Rightarrow> string" where
  "pin_path_for_iface if_name = ''/sys/fs/bpf/kwatch_'' @ if_name"

definition owner_state_dir_for_iface :: "string \<Rightarrow> string" where
  "owner_state_dir_for_iface if_name = ''/run/kwatch/'' @ if_name"

definition owner_pid_path_for_iface :: "string \<Rightarrow> string" where
  "owner_pid_path_for_iface if_name = owner_state_dir_for_iface if_name @ ''/owner.pid''"

text \<open>\<open>s.rfind(") ")\<close>, and the tokens \<open>std::istringstream >> token\<close> yields.\<close>

fun rfind_close :: "string \<Rightarrow> nat option" where
  "rfind_close [] = None"
| "rfind_close (c # cs) =
     (case rfind_close cs of
        Some i \<Rightarrow> Some (Suc i)
      | None \<Rightarrow> if c = CHR '')'' \<and> cs \<noteq> [] \<and> hd cs = CHR '' '' then Some 0 else None)"

fun tokens_acc :: "string \<Rightarrow> string \<Rightarrow> string list" where
  "tokens_acc cur [] = (if cur = [] then [] else [cur])"
| "tokens_acc cur (c # cs) =
     (if is_space c then (if cur = [] then tokens_acc [] cs else cur # tokens_acc [] cs)
      else tokens_acc (cur @ [c]) cs)"

definition tokens :: "string \<Rightarrow> string list" where
  "tokens s = tokens_acc [] s"

type_synonym procfs = "int \<Rightarrow> string option"

definition first_line :: "string \<Rightarrow> string" where
  "first_line s = takeWhile (\<lambda>c. c \<noteq> CHR 0x0A) s"

definition read_proc_stat :: "procfs \<Rightarrow> int \<Rightarrow> proc_stat result" where
  "read_proc_stat proc pid =
     (if pid \<le> 0 then Err ''invalid pid''
      else case proc pid of
        None \<Rightarrow> Err ''proc stat missing''
      | Some content \<Rightarrow>
          (let stat_line = first_line content in
           case rfind_close stat_line of
             None \<Rightarrow> Err ''proc stat invalid''
           | Some close_paren \<Rightarrow>
               (let fields = tokens (drop (close_paren + 2) stat_line) in
                if length fields < 20 then Err ''proc start time missing''
                else case stoul (fields ! 19) of
                       Inl _ \<Rightarrow> Err ''proc start time invalid''
                     | Inr (parsed, pos) \<Rightarrow>
                         (if pos \<noteq> length (fields ! 19) then Err ''proc start time invalid''
                          else Ok \<lparr>ps_state = hd (fields ! 0), ps_start = of_nat parsed\<rparr>))))"

definition current_owner_state :: "procfs \<Rightarrow> int \<Rightarrow> owner_state result" where
  "current_owner_state proc getpid =
     (case read_proc_stat proc getpid of
        Err e \<Rightarrow> Err e
      | Ok st \<Rightarrow> Ok \<lparr>owner_pid = getpid, start_time_ticks = ps_start st\<rparr>)"

text \<open>\<open>fscanf(fp, "%ld %llu", ...)\<close>: values out of range are clamped; \<open>None\<close> is fewer than two conversions.\<close>

definition scan_owner :: "string \<Rightarrow> (int \<times> nat) option" where
  "scan_owner s =
     (case scan_number s of
        None \<Rightarrow> None
      | Some (neg, ds, pos) \<Rightarrow>
          (case scan_number (drop pos s) of
             None \<Rightarrow> None
           | Some (neg2, ds2, _) \<Rightarrow>
               (let v = int (nat_of_dec ds); u = nat_of_dec ds2 in
                Some (if neg then max (- v) (- (2 ^ 63)) else min v (2 ^ 63 - 1),
                      if 2 ^ 64 \<le> u then 2 ^ 64 - 1 else if neg2 then (2 ^ 64 - u) mod 2 ^ 64 else u))))"

definition read_owner_state :: "host \<Rightarrow> string \<Rightarrow> owner_state result" where
  "read_owner_state h owner_pid_path =
     (case (if h_fault h ''open'' owner_pid_path = None then map_of (h_files h) owner_pid_path else None) of
        None \<Rightarrow> Err ''owner file missing''
      | Some content \<Rightarrow>
          (case scan_owner content of
             None \<Rightarrow> Err ''owner file invalid''
           | Some (pid, start_time) \<Rightarrow>
               (if pid \<le> 0 \<or> pid > 2147483647 \<or> start_time = 0 then Err ''owner file invalid''
                else Ok \<lparr>owner_pid = pid, start_time_ticks = of_nat start_time\<rparr>)))"

definition read_owner_pid :: "host \<Rightarrow> string \<Rightarrow> int result" where
  "read_owner_pid h owner_pid_path =
     (case read_owner_state h owner_pid_path of Err e \<Rightarrow> Err e | Ok ow \<Rightarrow> Ok (owner_pid ow))"

definition is_owner_alive :: "procfs \<Rightarrow> owner_state \<Rightarrow> bool" where
  "is_owner_alive proc ow =
     (case read_proc_stat proc (owner_pid ow) of
        Err _ \<Rightarrow> False
      | Ok st \<Rightarrow> ps_state st \<noteq> CHR ''Z'' \<and> ps_start st = start_time_ticks ow)"

text \<open>\<open>kill(pid, 0)\<close> is the \<open>errno\<close> (0 on success).\<close>

definition is_pid_alive :: "procfs \<Rightarrow> (int \<Rightarrow> int) \<Rightarrow> int \<Rightarrow> bool" where
  "is_pid_alive proc kill0 pid =
     (case read_proc_stat proc pid of
        Ok st \<Rightarrow> ps_state st \<noteq> CHR ''Z''
      | Err _ \<Rightarrow> if pid \<le> 0 then False else kill0 pid = 0 \<or> kill0 pid = 1)"

section \<open>Cleaning up\<close>

fun unlink_all :: "string list \<Rightarrow> host \<Rightarrow> unit result \<times> host" where
  "unlink_all [] h = (Ok (), h)"
| "unlink_all (p # ps) h =
     (let (e, h') = sys_unlink p h in
      if e \<noteq> 0 \<and> e \<noteq> ENOENT then (Err ''unlink entry failed'', h') else unlink_all ps h')"

definition remove_dir_entries :: "string \<Rightarrow> host \<Rightarrow> unit result \<times> host" where
  "remove_dir_entries d h =
     (case h_fault h ''opendir'' d of
        Some e \<Rightarrow> (if int (Suc e) = ENOENT then Ok () else Err ''open dir failed'', h)
      | None \<Rightarrow>
          (if d \<in> set (h_dirs h) then unlink_all (dir_entries d h) h
           else if map_of (h_files h) d \<noteq> None then (Err ''open dir failed'', h)
           else (Ok (), h)))"

definition cleanup_stale_state :: "procfs \<Rightarrow> string \<Rightarrow> host \<Rightarrow> bool result \<times> host" where
  "cleanup_stale_state proc if_name h0 =
     (let owner_path = owner_pid_path_for_iface if_name;
          owner_dir = owner_state_dir_for_iface if_name;
          pin_path = pin_path_for_iface if_name in
      if (case read_owner_state h0 owner_path of Ok ow \<Rightarrow> is_owner_alive proc ow | Err _ \<Rightarrow> False)
      then (Err ''active owner exists'', h0)
      else let (e1, h1) = sys_unlink owner_path h0 in
      if e1 \<noteq> 0 \<and> e1 \<noteq> ENOENT then (Err ''owner file unlink failed'', h1)
      else let (e2, h2) = sys_rmdir owner_dir h1 in
      if e2 \<noteq> 0 \<and> e2 \<noteq> ENOENT \<and> e2 \<noteq> ENOTEMPTY then (Err ''owner dir remove failed'', h2)
      else case remove_dir_entries pin_path h2 of
        (Err e, h3) \<Rightarrow> (Err e, h3)
      | (Ok _, h3) \<Rightarrow>
          (let (e4, h4) = sys_rmdir pin_path h3 in
           if e4 \<noteq> 0 \<and> e4 \<noteq> ENOENT \<and> e4 \<noteq> ENOTEMPTY then (Err ''pin dir remove failed'', h4)
           else (Ok (e1 = 0 \<or> e2 = 0 \<or> e4 = 0), h4)))"

section \<open>Skeleton: pinning the maps\<close>

record libbpf =
  pin_maps :: "string \<Rightarrow> host \<Rightarrow> int \<times> host"
  unpin_maps :: "string \<Rightarrow> host \<Rightarrow> host"

record skeleton =
  skel :: bool
  pinned_path :: string
  owner_pid_path :: string

definition directory_is_empty :: "string \<Rightarrow> host \<Rightarrow> bool" where
  "directory_is_empty p h =
     (if h_fault h ''opendir'' p \<noteq> None \<or> p \<notin> set (h_dirs h) then True else dir_entries p h = [])"

definition ensure_dir :: "string \<Rightarrow> host \<Rightarrow> unit result \<times> host" where
  "ensure_dir p h =
     (let (e, h') = sys_mkdir p h in
      if e = 0 then (Ok (), h')
      else if e \<noteq> EEXIST then (Err ''mkdir failed'', h')
      else if \<not> is_directory p h' then (Err ''path is not a directory'', h')
      else (Ok (), h'))"

definition ensure_owner_pid_parent :: "string \<Rightarrow> host \<Rightarrow> unit result \<times> host" where
  "ensure_owner_pid_parent path h =
     (case ensure_dir ''/run/kwatch'' h of
        (Err e, h') \<Rightarrow> (Err e, h')
      | (Ok _, h') \<Rightarrow>
          (let owner_dir = parent_dir path in
           if owner_dir = [] then (Err ''owner state dir missing'', h') else ensure_dir owner_dir h'))"

definition owner_text :: "owner_state \<Rightarrow> string" where
  "owner_text ow =
     (if owner_pid ow < 0 then ''-'' else []) @ dec_of_nat (nat \<bar>owner_pid ow\<bar>) @ '' '' @
     to_string (start_time_ticks ow) @ [CHR 0x0A]"

definition write_file :: "string \<Rightarrow> string \<Rightarrow> host \<Rightarrow> host" where
  "write_file p content h = h\<lparr>h_files := AList.update p content (h_files h)\<rparr>"

definition write_owner_pid_file :: "procfs \<Rightarrow> int \<Rightarrow> string \<Rightarrow> host \<Rightarrow> unit result \<times> host" where
  "write_owner_pid_file proc getpid path h =
     (case current_owner_state proc getpid of
        Err e \<Rightarrow> (Err e, h)
      | Ok ow \<Rightarrow>
          (if h_fault h ''open'' path \<noteq> None \<or> parent_dir path \<notin> set (h_dirs h) \<or> path \<in> set (h_dirs h)
           then (Err ''owner file open failed'', h)
           else let h1 = write_file path [] h in
           if h_fault h ''write'' path \<noteq> None
           then (Err ''owner file write failed'', snd (sys_unlink path h1))
           else if h_fault h ''close'' path \<noteq> None
           then (Err ''owner file close failed'', snd (sys_unlink path h1))
           else (Ok (), write_file path (owner_text ow) h1)))"

text \<open>\<open>rmdir\<close> of a directory the call created, when it is empty again.\<close>

definition undo_dir :: "bool \<Rightarrow> string \<Rightarrow> host \<Rightarrow> host" where
  "undo_dir created p h = (if created \<and> directory_is_empty p h then snd (sys_rmdir p h) else h)"

definition skeleton_pin ::
    "libbpf \<Rightarrow> procfs \<Rightarrow> int \<Rightarrow> string \<Rightarrow> string \<Rightarrow> skeleton \<Rightarrow> host \<Rightarrow> unit result \<times> skeleton \<times> host" where
  "skeleton_pin lb proc getpid path owner_file sk h0 =
     (if \<not> skel sk then (Err ''Skeleton is null'', sk, h0)
      else let (e, h1) = sys_mkdir path h0; created = (e = 0) in
      if e \<noteq> 0 \<and> e \<noteq> EEXIST then (Err ''mkdir failed'', sk, h1)
      else if e \<noteq> 0 \<and> \<not> is_directory path h1 then (Err ''pin path is not a directory'', sk, h1)
      else if (case read_owner_state h1 owner_file of Ok ow \<Rightarrow> is_owner_alive proc ow | Err _ \<Rightarrow> False)
      then (Err ''active owner exists'', sk, if created then snd (sys_rmdir path h1) else h1)
      else let h2 = (if is_ok (read_owner_state h1 owner_file)
                     then snd (sys_unlink owner_file (unpin_maps lb path h1))
                     else if \<not> directory_is_empty path h1 then unpin_maps lb path h1 else h1);
               (err, h3) = pin_maps lb path h2 in
      if err \<noteq> 0 then (Err ''pin failed'', sk, undo_dir created path h3)
      else case ensure_owner_pid_parent owner_file h3 of
        (Err m, h4) \<Rightarrow> (Err m, sk, undo_dir created path (unpin_maps lb path h4))
      | (Ok _, h4) \<Rightarrow>
          (case write_owner_pid_file proc getpid owner_file h4 of
             (Err m, h5) \<Rightarrow> (Err m, sk, undo_dir created path (unpin_maps lb path h5))
           | (Ok _, h5) \<Rightarrow> (Ok (), sk\<lparr>pinned_path := path, owner_pid_path := owner_file\<rparr>, h5)))"

definition skeleton_unpin :: "libbpf \<Rightarrow> string \<Rightarrow> skeleton \<Rightarrow> host \<Rightarrow> skeleton \<times> host" where
  "skeleton_unpin lb path sk h =
     (let h' = (if skel sk
                then let h1 = unpin_maps lb path h;
                         h2 = (if owner_pid_path sk \<noteq> []
                               then let h1' = snd (sys_unlink (owner_pid_path sk) h1) in
                                    if parent_dir (owner_pid_path sk) \<noteq> []
                                    then snd (sys_rmdir (parent_dir (owner_pid_path sk)) h1') else h1'
                               else h1)
                     in snd (sys_rmdir path h2)
                else h)
      in (if pinned_path sk = path then sk\<lparr>pinned_path := [], owner_pid_path := []\<rparr> else sk, h'))"

text \<open>The destructor; \<open>kwatch_bpf__destroy\<close> has no effect on the files.\<close>

definition skeleton_destroy :: "libbpf \<Rightarrow> skeleton \<Rightarrow> host \<Rightarrow> skeleton \<times> host" where
  "skeleton_destroy lb sk h =
     (if skel sk
      then (let (sk', h') = (if pinned_path sk \<noteq> [] then skeleton_unpin lb (pinned_path sk) sk h else (sk, h))
            in (sk'\<lparr>skel := False\<rparr>, h'))
      else (sk, h))"

definition skeleton_move :: "skeleton \<Rightarrow> skeleton \<times> skeleton" where
  "skeleton_move other =
     (other, \<lparr>skel = False, pinned_path = [], owner_pid_path = []\<rparr>)"

definition skeleton_assign :: "libbpf \<Rightarrow> skeleton \<Rightarrow> skeleton \<Rightarrow> host \<Rightarrow> (skeleton \<times> skeleton) \<times> host" where
  "skeleton_assign lb sk other h =
     (let h' = (if skel sk \<and> pinned_path sk \<noteq> [] then snd (skeleton_unpin lb (pinned_path sk) sk h) else h)
      in (skeleton_move other, h'))"

text \<open>\<open>one_line_libbpf_details\<close>: blanks are squeezed, long texts cut.\<close>

fun squeeze :: "bool \<Rightarrow> string \<Rightarrow> string" where
  "squeeze last_sp [] = []"
| "squeeze last_sp (c # cs) =
     (if c = CHR 0x0A \<or> c = CHR 0x0D \<or> c = CHR 0x09 \<or> c = CHR '' ''
      then (if last_sp then squeeze True cs else CHR '' '' # squeeze True cs)
      else c # squeeze False cs)"

definition one_line_libbpf_details :: "string \<Rightarrow> string" where
  "one_line_libbpf_details buf =
     (let details = squeeze False buf in
      if length details > 1000 then take 1000 details @ ''...'' else details)"

text \<open>\<open>capture_libbpf_log\<close> on the rendered message (at most 1023 bytes of it).\<close>

definition capture_libbpf_log :: "bool \<Rightarrow> string \<Rightarrow> string \<Rightarrow> string" where
  "capture_libbpf_log warn_or_debug msg buf =
     (if warn_or_debug \<and> length buf < 4096 then buf @ take 1023 msg else buf)"

text \<open>
  \<open>open_and_load\<close>: the \<open>errno\<close> of a failed open, whether the object has read-only data, and the return
  value of the load; the result carries \<open>*err_out\<close> and the configuration written to the read-only data.
\<close>

definition open_and_load ::
    "int option \<Rightarrow> bool \<Rightarrow> int \<Rightarrow> u32 \<Rightarrow> u32 \<Rightarrow> skeleton result \<times> int \<times> kwatch_runtime_config option" where
  "open_and_load open_errno rodata load_ret sample_n syn_window_s =
     (case open_errno of
        Some en \<Rightarrow> (Err ''open failed'', if en \<noteq> 0 then en else 5, None)
      | None \<Rightarrow>
          (let cfg = (if rodata then Some (kwatch_make_runtime_config sample_n syn_window_s) else None) in
           if load_ret \<noteq> 0 then (Err ''load failed'', if - load_ret \<le> 0 then 5 else - load_ret, cfg)
           else (Ok \<lparr>skel = True, pinned_path = [], owner_pid_path = []\<rparr>, 0, cfg)))"

section \<open>Facts on /proc and the owner file\<close>

lemma rfind_close_none: "CHR '')'' \<notin> set s \<Longrightarrow> rfind_close s = None"
  by (induction s) auto

lemma rfind_close_last: "CHR '')'' \<notin> set r \<Longrightarrow> rfind_close (a @ '') '' @ r) = Some (length a)"
proof (induction a)
  case Nil
  then have "rfind_close (CHR '' '' # r) = None" by (intro rfind_close_none) simp
  then show ?case by simp
qed simp

fun unwords :: "string list \<Rightarrow> string" where
  "unwords [] = []"
| "unwords [w] = w"
| "unwords (w # v # ws) = w @ '' '' @ unwords (v # ws)"

definition word_ok :: "string \<Rightarrow> bool" where
  "word_ok w \<longleftrightarrow> w \<noteq> [] \<and> list_all (\<lambda>c. \<not> is_space c) w"

lemma tokens_acc_word: "list_all (\<lambda>c. \<not> is_space c) w \<Longrightarrow> tokens_acc cur (w @ r) = tokens_acc (cur @ w) r"
  by (induction w arbitrary: cur) simp_all

lemma tokens_unwords: "list_all word_ok ws \<Longrightarrow> tokens (unwords ws) = ws"
  unfolding tokens_def
proof (induction ws rule: unwords.induct)
  case (2 w)
  then show ?case using tokens_acc_word[of w "[]" "[]"] by (simp add: word_ok_def)
next
  case (3 w v ws)
  then have "tokens_acc [] (w @ '' '' @ unwords (v # ws)) = tokens_acc w ('' '' @ unwords (v # ws))"
    using tokens_acc_word[of w "[]" "'' '' @ unwords (v # ws)"] by (simp add: word_ok_def)
  also have "\<dots> = w # tokens_acc [] (unwords (v # ws))" using 3 by (simp add: word_ok_def is_space_def)
  finally show ?case using 3 by simp
qed simp

lemma unwords_chars: "c \<in> set (unwords ws) \<Longrightarrow> c = CHR '' '' \<or> (\<exists>w \<in> set ws. c \<in> set w)"
  by (induction ws rule: unwords.induct) auto

text \<open>The line the kernel writes: process id, command in parentheses, then the fields from the state on.\<close>

definition stat_line :: "int \<Rightarrow> string \<Rightarrow> string list \<Rightarrow> string" where
  "stat_line pid comm fs = dec_of_nat (nat pid) @ '' ('' @ comm @ '') '' @ unwords fs @ [CHR 0x0A]"

definition fields_ok :: "string list \<Rightarrow> bool" where
  "fields_ok fs \<longleftrightarrow> 20 \<le> length fs \<and> list_all (\<lambda>w. word_ok w \<and> CHR '')'' \<notin> set w) fs"

lemma newline_space [simp]: "is_space (CHR 0x0A)"
  by (simp add: is_space_def)

lemma takeWhile_all_append: "list_all P xs \<Longrightarrow> \<not> P c \<Longrightarrow> takeWhile P (xs @ c # ys) = xs"
  by (induction xs) auto

lemma newline_not_dec: "list_all (\<lambda>c. c \<noteq> CHR 0x0A) (dec_of_nat n)"
  using dec_of_nat_digit[of _ n] digit_not_space newline_space by (fastforce simp: list_all_iff)

lemma first_stat_line:
  assumes "CHR 0x0A \<notin> set comm" "fields_ok fs"
  shows "first_line (stat_line pid comm fs @ rest) = (dec_of_nat (nat pid) @ '' ('' @ comm) @ '') '' @ unwords fs"
proof -
  have nosp: "c \<in> set w \<Longrightarrow> \<not> is_space c" if "w \<in> set fs" for c w
    using that assms(2) by (auto simp: fields_ok_def word_ok_def list_all_iff)
  have "CHR 0x0A \<notin> set (unwords fs)"
    using unwords_chars[of "CHR 0x0A" fs] nosp[of _ "CHR 0x0A"] newline_space by auto
  then have "list_all (\<lambda>c. c \<noteq> CHR 0x0A) ((dec_of_nat (nat pid) @ '' ('' @ comm) @ '') '' @ unwords fs)"
    using assms(1) newline_not_dec[of "nat pid"] by (auto simp: list_all_iff)
  from takeWhile_all_append[OF this, of "CHR 0x0A" rest] show ?thesis
    by (simp add: first_line_def stat_line_def)
qed

lemma read_proc_stat_line:
  assumes "0 < pid" "proc pid = Some (stat_line pid comm fs @ rest)" "CHR 0x0A \<notin> set comm" "fields_ok fs"
    and "fs ! 19 = to_string (start :: u64)"
  shows "read_proc_stat proc pid = Ok \<lparr>ps_state = hd (fs ! 0), ps_start = start\<rparr>"
proof -
  let ?a = "dec_of_nat (nat pid) @ '' ('' @ comm"
  have "CHR '')'' \<notin> set (unwords fs)"
    using unwords_chars[of "CHR '')''" fs] assms(4) by (auto simp: fields_ok_def list_all_iff)
  then have rf: "rfind_close (?a @ '') '' @ unwords fs) = Some (length ?a)" by (rule rfind_close_last)
  have "drop (length ?a + 2) (?a @ '') '' @ unwords fs) = unwords fs"
    by (subst append_assoc[symmetric], subst drop_append) simp
  moreover have "tokens (unwords fs) = fs"
    using assms(4) by (intro tokens_unwords) (auto simp: fields_ok_def list_all_iff)
  moreover have "stoul (to_string start) = Inr (unat start, length (to_string start))"
    using unat_bound(4)[of start] by (intro stoul_dec_of_nat) simp
  moreover have "\<not> length fs < 20" using assms(4) by (simp add: fields_ok_def)
  ultimately show ?thesis
    unfolding read_proc_stat_def assms(2) first_stat_line[OF assms(3,4)] Let_def option.case rf
    using assms(1,5) by (simp del: append_assoc)
qed

lemma scan_owner_text:
  assumes "0 < owner_pid ow" "owner_pid ow \<le> 2147483647"
  shows "scan_owner (owner_text ow) = Some (owner_pid ow, unat (start_time_ticks ow))"
proof -
  let ?t = "'' '' @ to_string (start_time_ticks ow) @ [CHR 0x0A]"
  have tx: "owner_text ow = dec_of_nat (nat (owner_pid ow)) @ ?t" using assms by (simp add: owner_text_def)
  have s1: "scan_number (dec_of_nat (nat (owner_pid ow)) @ ?t) =
      Some (False, dec_of_nat (nat (owner_pid ow)), length (dec_of_nat (nat (owner_pid ow))))"
    by (intro scan_digits) simp_all
  have s2: "scan_number (to_string (start_time_ticks ow) @ [CHR 0x0A]) =
      Some (False, to_string (start_time_ticks ow), length (to_string (start_time_ticks ow)))"
    by (intro scan_digits) (simp_all add: is_digit_def)
  have "scan_number ?t = Some (False, to_string (start_time_ticks ow), Suc (length (to_string (start_time_ticks ow))))"
    using scan_blank[of "CHR '' ''" "to_string (start_time_ticks ow) @ [CHR 0x0A]"] s2 by (simp add: is_space_def)
  then show ?thesis
    using assms unat_bound(4)[of "start_time_ticks ow"] unfolding scan_owner_def tx s1 option.case prod.case
    by simp
qed

section \<open>What the calls leave alone\<close>

lemma sys_mkdir_files [simp]:
  "h_files (snd (sys_mkdir p h)) = h_files h" "h_fault (snd (sys_mkdir p h)) = h_fault h"
  by (simp_all add: sys_mkdir_def split: option.split)

lemma sys_rmdir_files [simp]:
  "h_files (snd (sys_rmdir p h)) = h_files h" "h_fault (snd (sys_rmdir p h)) = h_fault h"
  by (simp_all add: sys_rmdir_def split: option.split)

lemma sys_unlink_fault [simp]: "h_fault (snd (sys_unlink p h)) = h_fault h"
  by (simp add: sys_unlink_def split: option.split)

lemma read_owner_cong:
  "map_of (h_files h) p = map_of (h_files h') p \<Longrightarrow> h_fault h = h_fault h' \<Longrightarrow>
     read_owner_state h p = read_owner_state h' p"
  by (simp add: read_owner_state_def)

definition owner_valid :: "owner_state \<Rightarrow> bool" where
  "owner_valid ow \<longleftrightarrow> 0 < owner_pid ow \<and> owner_pid ow \<le> 2147483647 \<and> start_time_ticks ow \<noteq> 0"

lemma read_written_owner:
  assumes "owner_valid ow" "h_fault h ''open'' p = None" "map_of (h_files h) p = Some (owner_text ow)"
  shows "read_owner_state h p = Ok ow"
  using assms scan_owner_text[of ow]
  by (simp add: read_owner_state_def owner_valid_def unat_eq_zero)

lemma write_owner_ok:
  assumes "write_owner_pid_file proc pid path h = (Ok (), h')"
  obtains ow where "current_owner_state proc pid = Ok ow" "owner_pid ow = pid"
    "map_of (h_files h') path = Some (owner_text ow)" "h_fault h' ''open'' path = None"
  using assms
  by (auto simp: write_owner_pid_file_def write_file_def Let_def update_conv current_owner_state_def
      split: result.splits if_splits)

lemma unlink_missing:
  assumes "fst (sys_unlink p h) = 0 \<or> fst (sys_unlink p h) = ENOENT" "h_fault h ''unlink'' p = None"
  shows "map_of (h_files (snd (sys_unlink p h))) p = None"
  using assms by (auto simp: sys_unlink_def delete_conv' EISDIR_def ENOENT_def ENOTDIR_def split: if_splits)

text \<open>A pin that succeeds ends by writing the owner file.\<close>

lemma pin_ok:
  assumes "skeleton_pin lb proc pid path opath sk h = (Ok (), sk', h')"
  obtains ow where "current_owner_state proc pid = Ok ow" "owner_pid ow = pid"
    "map_of (h_files h') opath = Some (owner_text ow)" "h_fault h' ''open'' opath = None"
    "\<And>o'. read_owner_state h opath = Ok o' \<Longrightarrow> \<not> is_owner_alive proc o'"
    "sk' = sk\<lparr>pinned_path := path, owner_pid_path := opath\<rparr>"
proof -
  have rd: "read_owner_state (snd (sys_mkdir path h)) opath = read_owner_state h opath"
    by (rule read_owner_cong) simp_all
  from assms obtain h4 where w: "write_owner_pid_file proc pid opath h4 = (Ok (), h')"
    and alive: "\<not> (case read_owner_state (snd (sys_mkdir path h)) opath of Ok ow \<Rightarrow> is_owner_alive proc ow | Err _ \<Rightarrow> False)"
    and sk': "sk' = sk\<lparr>pinned_path := path, owner_pid_path := opath\<rparr>"
    unfolding skeleton_pin_def Let_def
    by (auto split: if_split_asm prod.splits result.split_asm)
  show ?thesis
  proof (rule write_owner_ok[OF w])
    fix ow
    assume "current_owner_state proc pid = Ok ow" "owner_pid ow = pid"
      "map_of (h_files h') opath = Some (owner_text ow)" "h_fault h' ''open'' opath = None"
    then show ?thesis using alive[unfolded rd] sk' by (intro that) (auto split: result.splits)
  qed
qed

text \<open>While the recorded owner lives, a pin changes no file and does not succeed.\<close>

lemma pin_refused:
  assumes "read_owner_state h opath = Ok ow" "is_owner_alive proc ow"
  shows "\<not> is_ok (fst (skeleton_pin lb proc pid path opath sk h))"
    "h_files (snd (snd (skeleton_pin lb proc pid path opath sk h))) = h_files h"
    "h_fault (snd (snd (skeleton_pin lb proc pid path opath sk h))) = h_fault h"
proof -
  have "read_owner_state (snd (sys_mkdir path h)) opath = Ok ow"
    using read_owner_cong[of "snd (sys_mkdir path h)" opath h] assms(1) by simp
  with assms(2) show "\<not> is_ok (fst (skeleton_pin lb proc pid path opath sk h))"
    "h_files (snd (snd (skeleton_pin lb proc pid path opath sk h))) = h_files h"
    "h_fault (snd (snd (skeleton_pin lb proc pid path opath sk h))) = h_fault h"
    by (simp_all add: skeleton_pin_def Let_def case_prod_beta)
qed

section \<open>Cleaning up removes everything\<close>

text \<open>Every file lies in a directory, and an injected error is never \<open>ENOENT\<close>.\<close>

definition host_wf :: "host \<Rightarrow> bool" where
  "host_wf h \<longleftrightarrow> (\<forall>p. map_of (h_files h) p \<noteq> None \<longrightarrow> parent_dir p \<in> set (h_dirs h)) \<and>
     (\<forall>c p. h_fault h c p \<noteq> Some 1)"

definition shrinks :: "host \<Rightarrow> host \<Rightarrow> bool" where
  "shrinks h h' \<longleftrightarrow> h_fault h' = h_fault h \<and>
     (\<forall>q. map_of (h_files h') q = None \<or> map_of (h_files h') q = map_of (h_files h) q)"

lemma shrinks_refl [simp]: "shrinks h h"
  by (simp add: shrinks_def)

lemma shrinks_trans: "shrinks a b \<Longrightarrow> shrinks b c \<Longrightarrow> shrinks a c"
  unfolding shrinks_def by metis

lemma shrinks_calls [simp]: "shrinks h (snd (sys_unlink p h))" "shrinks h (snd (sys_rmdir p h))"
  by (auto simp: shrinks_def sys_unlink_def delete_conv' split: option.split)

lemma shrinks_gone: "shrinks h h' \<Longrightarrow> map_of (h_files h) p = None \<Longrightarrow> map_of (h_files h') p = None"
  unfolding shrinks_def by metis

lemma unlink_gone:
  assumes "\<forall>c p. h_fault h c p \<noteq> Some 1" "fst (sys_unlink p h) = 0 \<or> fst (sys_unlink p h) = ENOENT"
  shows "map_of (h_files (snd (sys_unlink p h))) p = None"
proof (rule unlink_missing[OF assms(2)])
  show "h_fault h ''unlink'' p = None"
    using assms by (cases "h_fault h ''unlink'' p") (auto simp: sys_unlink_def ENOENT_def)
qed

lemma unlink_all_gone:
  "\<forall>c p. h_fault h c p \<noteq> Some 1 \<Longrightarrow> unlink_all ps h = (r, h') \<Longrightarrow>
     shrinks h h' \<and> (is_ok r \<longrightarrow> (\<forall>p \<in> set ps. map_of (h_files h') p = None))"
proof (induction ps arbitrary: h)
  case (Cons p ps)
  let ?h = "snd (sys_unlink p h)"
  show ?case
  proof (cases "fst (sys_unlink p h) = 0 \<or> fst (sys_unlink p h) = ENOENT")
    case True
    then have "unlink_all ps ?h = (r, h')" using Cons.prems(2) by (auto simp: case_prod_beta)
    with Cons.IH[of ?h] Cons.prems(1) have "shrinks ?h h'" "is_ok r \<longrightarrow> (\<forall>p \<in> set ps. map_of (h_files h') p = None)"
      by simp_all
    with unlink_gone[OF Cons.prems(1) True] show ?thesis
      using shrinks_trans[OF shrinks_calls(1)] shrinks_gone by auto
  next
    case False
    then show ?thesis using Cons.prems(2) shrinks_calls(1)[of h p] by (auto simp: case_prod_beta)
  qed
qed simp

lemma remove_dir_gone:
  assumes "\<forall>c p. h_fault h c p \<noteq> Some 1" "remove_dir_entries d h = (Ok u, h')"
  shows "shrinks h h'" "d \<in> set (h_dirs h) \<Longrightarrow> parent_dir p = d \<Longrightarrow> map_of (h_files h') p = None"
proof -
  have nf: "h_fault h ''opendir'' d = None"
    using assms by (cases "h_fault h ''opendir'' d") (auto simp: remove_dir_entries_def ENOENT_def split: if_splits)
  show s: "shrinks h h'"
    using assms unlink_all_gone[OF assms(1), of "dir_entries d h"] nf
    by (auto simp: remove_dir_entries_def split: if_splits)
  show "map_of (h_files h') p = None" if "d \<in> set (h_dirs h)" "parent_dir p = d"
  proof (cases "map_of (h_files h) p")
    case None
    then show ?thesis using s shrinks_gone by blast
  next
    case (Some c)
    then have "p \<in> set (dir_entries d h)"
      using that(2) by (auto simp: dir_entries_def dest: map_of_SomeD intro!: rev_image_eqI)
    with unlink_all_gone[OF assms(1), of "dir_entries d h" "Ok u" h'] assms(2) that nf show ?thesis
      by (simp add: remove_dir_entries_def)
  qed
qed

lemma rmdir_dirs: "set (h_dirs (snd (sys_rmdir p h))) \<supseteq> set (h_dirs h) - {p}"
  by (auto simp: sys_rmdir_def split: option.split)

lemma unlink_dirs [simp]: "h_dirs (snd (sys_unlink p h)) = h_dirs h"
  by (simp add: sys_unlink_def split: option.split)

lemma paths_differ: "pin_path_for_iface n \<noteq> owner_state_dir_for_iface m"
  by (simp add: pin_path_for_iface_def owner_state_dir_for_iface_def)

lemma cleanup_steps:
  assumes "cleanup_stale_state proc n h = (Ok b, h')"
  obtains h1 h2 h3 u where "fst (sys_unlink (owner_pid_path_for_iface n) h) \<in> {0, ENOENT}"
    "h1 = snd (sys_unlink (owner_pid_path_for_iface n) h)" "h2 = snd (sys_rmdir (owner_state_dir_for_iface n) h1)"
    "remove_dir_entries (pin_path_for_iface n) h2 = (Ok u, h3)" "h' = snd (sys_rmdir (pin_path_for_iface n) h3)"
proof -
  let ?h1 = "snd (sys_unlink (owner_pid_path_for_iface n) h)"
  let ?h2 = "snd (sys_rmdir (owner_state_dir_for_iface n) ?h1)"
  obtain q h3 where q: "remove_dir_entries (pin_path_for_iface n) ?h2 = (q, h3)" by (rule prod.exhaust)
  have "fst (sys_unlink (owner_pid_path_for_iface n) h) \<in> {0, ENOENT}" "is_ok q"
    "h' = snd (sys_rmdir (pin_path_for_iface n) h3)"
    using assms q unfolding cleanup_stale_state_def Let_def case_prod_beta
    by (cases q; simp split: if_split_asm)+
  with q show ?thesis by (cases q) (auto intro: that[OF _ refl refl])
qed

lemma cleanup_alive:
  "read_owner_state h (owner_pid_path_for_iface n) = Ok ow \<Longrightarrow> is_owner_alive proc ow \<Longrightarrow>
     cleanup_stale_state proc n h = (Err ''active owner exists'', h)"
  by (simp add: cleanup_stale_state_def Let_def)

lemma cleanup_ok_gone:
  assumes "host_wf h" "cleanup_stale_state proc n h = (Ok b, h')"
  shows "map_of (h_files h') (owner_pid_path_for_iface n) = None"
    and "parent_dir p = pin_path_for_iface n \<Longrightarrow> map_of (h_files h') p = None"
proof -
  from assms(2) obtain h1 h2 h3 u where st: "fst (sys_unlink (owner_pid_path_for_iface n) h) \<in> {0, ENOENT}"
    "h1 = snd (sys_unlink (owner_pid_path_for_iface n) h)" "h2 = snd (sys_rmdir (owner_state_dir_for_iface n) h1)"
    "remove_dir_entries (pin_path_for_iface n) h2 = (Ok u, h3)" "h' = snd (sys_rmdir (pin_path_for_iface n) h3)"
    by (rule cleanup_steps)
  have nf: "\<forall>c p. h_fault h c p \<noteq> Some 1" "\<forall>c p. h_fault h2 c p \<noteq> Some 1"
    using assms(1) st(2,3) by (simp_all add: host_wf_def)
  have s3: "shrinks h2 h3" by (rule remove_dir_gone(1)[OF nf(2) st(4)])
  have s: "shrinks h1 h'" "shrinks h h2" "shrinks h3 h'"
    using shrinks_trans[OF _ shrinks_trans[OF s3 shrinks_calls(2)]] shrinks_trans[OF shrinks_calls(1) shrinks_calls(2)]
      shrinks_calls(2) st(2,3,5) by metis+
  show "map_of (h_files h') (owner_pid_path_for_iface n) = None"
    using unlink_gone[OF nf(1)] st(1,2) shrinks_gone[OF s(1)] by auto
  show "map_of (h_files h') p = None" if p: "parent_dir p = pin_path_for_iface n"
  proof (cases "map_of (h_files h) p")
    case None
    then show ?thesis using shrinks_gone[OF s(2)] shrinks_gone[OF s3] shrinks_gone[OF s(3)] by blast
  next
    case (Some c)
    then have "pin_path_for_iface n \<in> set (h_dirs h1)"
      using assms(1) p unfolding host_wf_def st(2) unlink_dirs by (metis option.distinct(1))
    then have "pin_path_for_iface n \<in> set (h_dirs h2)"
      using rmdir_dirs[of h1 "owner_state_dir_for_iface n"] paths_differ[of n n] st(3) by auto
    from remove_dir_gone(2)[OF nf(2) st(4) this p] show ?thesis by (rule shrinks_gone[OF s(3)])
  qed
qed

section \<open>Properties\<close>

text \<open>
  The start time and state of a process are read correctly from
  \<open>/proc/<pid>/stat\<close> whatever the process is called: blanks and parentheses in the command name do not
  shift the fields.
\<close>

theorem proc_stat_roundtrip:
  assumes "0 < pid" "proc pid = Some (stat_line pid comm fs @ rest)" "CHR 0x0A \<notin> set comm" "fields_ok fs"
    and "fs ! 19 = to_string (start :: u64)"
  shows "read_proc_stat proc pid = Ok \<lparr>ps_state = hd (fs ! 0), ps_start = start\<rparr>"
  using assms by (rule read_proc_stat_line)

definition demo_fields :: "string list" where
  "demo_fields = [''S'', ''1'', ''1'', ''1'', ''0'', ''-1'', ''4'', ''9'', ''0'', ''0'', ''0'', ''3'', ''2'', ''0'', ''0'',
     ''20'', ''0'', ''1'', ''0'', ''77'', ''0'']"

definition demo_proc :: procfs where
  "demo_proc pid = (if pid = 42 then Some (stat_line 42 '') Z (x'' demo_fields) else None)"

lemma dec_77: "to_string (77 :: u64) = ''77''"
  using dec_of_nat_of_dec[of "''77''"] by (simp add: canonical_def is_digit_def nat_of_dec_def digit_val_def)

lemma demo_fields_ok: "fields_ok demo_fields" "demo_fields ! 19 = to_string (77 :: u64)" "hd (demo_fields ! 0) = CHR ''S''"
  by (simp_all add: demo_fields_def fields_ok_def word_ok_def is_space_def dec_77[simplified])

lemma demo_read: "read_proc_stat demo_proc 42 = Ok \<lparr>ps_state = CHR ''S'', ps_start = 77\<rparr>"
  using read_proc_stat_line[of 42 demo_proc "'') Z (x''" demo_fields "[]" 77] demo_fields_ok
  by (simp add: demo_proc_def)

theorem proc_stat_roundtrip_witness:
  "read_proc_stat demo_proc 42 = Ok \<lparr>ps_state = CHR ''S'', ps_start = 77\<rparr>"
  using proc_stat_roundtrip[of 42 demo_proc "'') Z (x''" demo_fields "[]" 77] demo_fields_ok
  by (simp add: demo_proc_def)

text \<open>
  Property C14. Pinning claims the interface: after a successful \<open>pin\<close> the owner file reads back as
  the calling process and its start time, and as long as that process lives no other process can pin
  with the same owner file; the refused attempt changes no file.
\<close>

theorem pin_exclusive:
  assumes "skeleton_pin lb proc pid path opath sk h = (Ok (), sk', h')"
    and "current_owner_state proc pid = Ok ow" "owner_valid ow" "is_owner_alive proc' ow"
  shows "read_owner_state h' opath = Ok ow \<and>
    \<not> is_ok (fst (skeleton_pin lb2 proc' pid2 path2 opath sk2 h')) \<and>
    h_files (snd (snd (skeleton_pin lb2 proc' pid2 path2 opath sk2 h'))) = h_files h'"
proof -
  have rd: "read_owner_state h' opath = Ok ow"
    using assms(1)
  proof (rule pin_ok)
    fix o1
    assume "current_owner_state proc pid = Ok o1" "map_of (h_files h') opath = Some (owner_text o1)"
      "h_fault h' ''open'' opath = None"
    then show ?thesis using assms(2,3) read_written_owner by simp
  qed
  with pin_refused[OF rd assms(4)] show ?thesis by simp
qed

definition demo_host :: host where
  "demo_host = \<lparr>h_files = [], h_dirs = [''/sys/fs/bpf'', ''/run''], h_fault = (\<lambda>_ _. None)\<rparr>"

definition demo_libbpf :: libbpf where
  "demo_libbpf = \<lparr>pin_maps = (\<lambda>d h. (0, write_file (d @ ''/blacklist'') [] h)), unpin_maps = (\<lambda>_ h. h)\<rparr>"

definition demo_skel :: skeleton where
  "demo_skel = \<lparr>skel = True, pinned_path = [], owner_pid_path = []\<rparr>"

lemma demo_pinned:
  "\<exists>sk' h'. skeleton_pin demo_libbpf demo_proc 42 (pin_path_for_iface ''lo'') (owner_pid_path_for_iface ''lo'')
     demo_skel demo_host = (Ok (), sk', h')"
  by (simp add: skeleton_pin_def demo_skel_def demo_host_def demo_libbpf_def sys_mkdir_def Let_def
      pin_path_for_iface_def owner_pid_path_for_iface_def owner_state_dir_for_iface_def parent_dir_def
      read_owner_state_def directory_is_empty_def dir_entries_def write_file_def ensure_owner_pid_parent_def
      ensure_dir_def write_owner_pid_file_def current_owner_state_def demo_read)

theorem pin_exclusive_witness:
  "\<exists>sk' h'. skeleton_pin demo_libbpf demo_proc 42 (pin_path_for_iface ''lo'') (owner_pid_path_for_iface ''lo'')
     demo_skel demo_host = (Ok (), sk', h') \<and>
     read_owner_state h' (owner_pid_path_for_iface ''lo'') = Ok \<lparr>owner_pid = 42, start_time_ticks = 77\<rparr>"
proof -
  obtain sk' h' where p: "skeleton_pin demo_libbpf demo_proc 42 (pin_path_for_iface ''lo'')
      (owner_pid_path_for_iface ''lo'') demo_skel demo_host = (Ok (), sk', h')" using demo_pinned by blast
  have cur: "current_owner_state demo_proc 42 = Ok \<lparr>owner_pid = 42, start_time_ticks = 77\<rparr>"
    by (simp add: current_owner_state_def demo_read)
  have "is_owner_alive demo_proc \<lparr>owner_pid = 42, start_time_ticks = 77\<rparr>"
    by (simp add: is_owner_alive_def demo_read)
  with pin_exclusive[OF p cur] p show ?thesis by (auto simp: owner_valid_def)
qed

text \<open>
  Property C15. \<open>cleanup_stale_state\<close> never touches the state of a living owner; when it
  succeeds, the owner file and every file in the pin directory are gone.
\<close>

theorem cleanup_stale_only:
  assumes "host_wf h" "cleanup_stale_state proc n h = (r, h')"
  shows "(\<forall>ow. read_owner_state h (owner_pid_path_for_iface n) = Ok ow \<and> is_owner_alive proc ow \<longrightarrow>
      r = Err ''active owner exists'' \<and> h' = h) \<and>
    (is_ok r \<longrightarrow> map_of (h_files h') (owner_pid_path_for_iface n) = None \<and>
      (\<forall>p. parent_dir p = pin_path_for_iface n \<longrightarrow> map_of (h_files h') p = None))"
  using cleanup_alive[of h n _ proc] cleanup_ok_gone[OF assms(1), of proc n _ h'] assms(2) by (cases r) auto

theorem cleanup_stale_only_witness:
  "map_of (h_files (snd (cleanup_stale_state (\<lambda>_. None) ''lo''
     \<lparr>h_files = [(''/run/kwatch/lo/owner.pid'', ''42 77'')], h_dirs = [''/run/kwatch/lo''], h_fault = (\<lambda>_ _. None)\<rparr>)))
     ''/run/kwatch/lo/owner.pid'' = None"
proof -
  let ?h = "\<lparr>h_files = [(''/run/kwatch/lo/owner.pid'', ''42 77'')], h_dirs = [''/run/kwatch/lo''], h_fault = (\<lambda>_ _. None)\<rparr>"
  have wf: "host_wf ?h" by (simp add: host_wf_def parent_dir_def)
  have alive: "\<not> is_owner_alive (\<lambda>_. None) ow" for ow by (simp add: is_owner_alive_def read_proc_stat_def)
  have "is_ok (fst (cleanup_stale_state (\<lambda>_. None) ''lo'' ?h))"
    by (simp add: cleanup_stale_state_def Let_def alive sys_unlink_def sys_rmdir_def remove_dir_entries_def
        owner_pid_path_for_iface_def owner_state_dir_for_iface_def pin_path_for_iface_def dir_entries_def
        parent_dir_def ENOENT_def AList.delete_eq split: result.split)
  with cleanup_stale_only[OF wf prod.collapse[symmetric], of "''lo''" "\<lambda>_. None"] show ?thesis
    by (simp add: owner_pid_path_for_iface_def owner_state_dir_for_iface_def)
qed

end
