(* ===== verification/KW_Maps.thy ===== *)
theory KW_Maps
  imports KW_Pin KW_Log KW_Xdp KW_Tracker
begin

text \<open>
  The commands that work on the pinned maps of a running instance: \<open>block.cpp\<close>, \<open>unblock.cpp\<close>,
  \<open>list.cpp\<close> and \<open>stats.cpp\<close> under \<open>src/cli/commands/\<close>, and \<open>src/core/flow_snapshot.h\<close>, which reads the
  flow table. The map system calls are parameters, with what the kernel documents of them stated by
  \<open>lpm_map_law\<close> and \<open>enumerates\<close>. All four readers share one loop, \<open>key_walk\<close>: ask for the key after the
  last one until there is none; it is a partial function, since the kernel decides when it ends. The
  log lines of the commands are not modelled, their exit status and standard output are.
\<close>

section \<open>Walking a map\<close>

partial_function (option) key_walk ::
    "('k option \<Rightarrow> 'k option) \<Rightarrow> 'k option \<Rightarrow> 'k list \<Rightarrow> 'k list option" where
  "key_walk next cur visited =
     (case next cur of
        None \<Rightarrow> Some visited
      | Some k \<Rightarrow> key_walk next (Some k) (visited @ [k]))"

text \<open>
  \<open>bpf_map_get_next_key\<close> on a map that does not change: it enumerates the keys, a null key stands before
  the first one, and so does every key that is not in the map.
\<close>

definition enumerates :: "('k option \<Rightarrow> 'k option) \<Rightarrow> 'k list \<Rightarrow> bool" where
  "enumerates next ks \<longleftrightarrow>
     distinct ks \<and> next None = (if ks = [] then None else Some (ks ! 0)) \<and>
     (\<forall>i < length ks. next (Some (ks ! i)) = (if Suc i < length ks then Some (ks ! Suc i) else None)) \<and>
     (\<forall>k. k \<notin> set ks \<longrightarrow> next (Some k) = next None)"

section \<open>Finding the maps\<close>

definition map_opens :: "procfs \<Rightarrow> host \<Rightarrow> string \<Rightarrow> string \<Rightarrow> bool" where
  "map_opens proc h if_name map_name =
     (case read_owner_state h (owner_pid_path_for_iface if_name) of
        Err _ \<Rightarrow> False
      | Ok ow \<Rightarrow>
          (if \<not> is_owner_alive proc ow then False
           else let p = pin_path_for_iface if_name @ ''/'' @ map_name in
             h_fault h ''bpf_obj_get'' p = None \<and> map_of (h_files h) p \<noteq> None))"

definition get_blacklist_fd :: "procfs \<Rightarrow> host \<Rightarrow> string \<Rightarrow> bool" where
  "get_blacklist_fd proc h if_name = map_opens proc h if_name ''blacklist''"

section \<open>block, unblock, list\<close>

type_synonym lpm_map = "lpm_key \<rightharpoonup> u8"

record lpm_ops =
  lpm_update :: "lpm_key \<Rightarrow> u8 \<Rightarrow> lpm_map \<Rightarrow> int \<times> lpm_map"
  lpm_delete :: "lpm_key \<Rightarrow> lpm_map \<Rightarrow> int \<times> lpm_map"
  lpm_next :: "lpm_map \<Rightarrow> lpm_key option \<Rightarrow> lpm_key option"
  lpm_get :: "lpm_key \<Rightarrow> lpm_map \<Rightarrow> u8 option"

definition cidr_key :: "u32 \<times> u8 \<Rightarrow> lpm_key" where
  "cidr_key r = (ucast (snd r), fst r)"

fun block_loop :: "lpm_ops \<Rightarrow> string list \<Rightarrow> bool \<Rightarrow> lpm_map \<Rightarrow> bool \<times> lpm_map" where
  "block_loop ops [] all_ok m = (all_ok, m)"
| "block_loop ops (a # as) all_ok m =
     (case parse_cidr a of
        Err _ \<Rightarrow> block_loop ops as False m
      | Ok r \<Rightarrow>
          (let (ret, m') = lpm_update ops (cidr_key r) 1 m in
           block_loop ops as (if ret \<noteq> 0 then False else all_ok) m'))"

definition cmd_block :: "lpm_ops \<Rightarrow> procfs \<Rightarrow> host \<Rightarrow> string list \<Rightarrow> lpm_map \<Rightarrow> int \<times> lpm_map" where
  "cmd_block ops proc h args m =
     (if length args < 2 then (64, m)
      else if \<not> get_blacklist_fd proc h (args ! 0) then (65, m)
      else let (all_ok, m') = block_loop ops (drop 1 args) True m in (if all_ok then 0 else 65, m'))"

fun unblock_loop :: "lpm_ops \<Rightarrow> string list \<Rightarrow> bool \<Rightarrow> lpm_map \<Rightarrow> bool \<times> lpm_map" where
  "unblock_loop ops [] all_ok m = (all_ok, m)"
| "unblock_loop ops (a # as) all_ok m =
     (case parse_cidr a of
        Err _ \<Rightarrow> unblock_loop ops as False m
      | Ok r \<Rightarrow>
          (let (ret, m') = lpm_delete ops (cidr_key r) m in
           unblock_loop ops as (if ret \<noteq> 0 then False else all_ok) m'))"

definition cmd_unblock :: "lpm_ops \<Rightarrow> procfs \<Rightarrow> host \<Rightarrow> string list \<Rightarrow> lpm_map \<Rightarrow> int \<times> lpm_map" where
  "cmd_unblock ops proc h args m =
     (if length args < 2 then (64, m)
      else if \<not> get_blacklist_fd proc h (args ! 0) then (65, m)
      else let (all_ok, m') = unblock_loop ops (drop 1 args) True m in (if all_ok then 0 else 65, m'))"

definition list_line :: "lpm_key \<Rightarrow> string" where
  "list_line k = ipv4_format (snd k) @ ''/'' @ to_string (fst k)"

definition cmd_list :: "lpm_ops \<Rightarrow> procfs \<Rightarrow> host \<Rightarrow> string list \<Rightarrow> lpm_map \<Rightarrow> (int \<times> string) option" where
  "cmd_list ops proc h args m =
     (if length args \<noteq> 1 then Some (64, [])
      else if \<not> get_blacklist_fd proc h (args ! 0) then Some (65, [])
      else map_option (\<lambda>ks. (0, concat (map (\<lambda>k. list_line k @ nl) (filter (\<lambda>k. lpm_get ops k m \<noteq> None) ks))))
             (key_walk (lpm_next ops m) None []))"

section \<open>stats\<close>

definition stats_name :: "u32 \<Rightarrow> string" where
  "stats_name k =
     (if k = 1 then ''ICMP'' else if k = 6 then ''TCP'' else if k = 17 then ''UDP''
      else if k = 0xFFFF then ''DROPPED'' else ''Other ('' @ to_string k @ '')'')"

definition stats_line :: "u32 \<times> u64 \<Rightarrow> string" where
  "stats_line kv = stats_name (fst kv) @ [CHR 0x09, CHR 0x09] @ to_string (snd kv) @ nl"

definition stats_header :: string where
  "stats_header = ''Protocol'' @ [CHR 0x09] @ ''Count'' @ nl @ replicate 33 CHR ''-'' @ nl"

text \<open>The loop starts after the key 0, not after the null key.\<close>

definition cmd_stats ::
    "procfs \<Rightarrow> host \<Rightarrow> string list \<Rightarrow> (u32 option \<Rightarrow> u32 option) \<Rightarrow> (u32 \<rightharpoonup> u64) \<Rightarrow> (int \<times> string) option" where
  "cmd_stats proc h args next m =
     (if length args \<noteq> 1 then Some (64, [])
      else if \<not> map_opens proc h (args ! 0) ''pkt_counts'' then Some (65, [])
      else map_option (\<lambda>ks. (0, stats_header @ concat (map stats_line
               (concat (map (\<lambda>k. case m k of Some v \<Rightarrow> [(k, v)] | None \<Rightarrow> []) ks)))))
             (key_walk next (Some 0) []))"

section \<open>The flow table snapshot\<close>

text \<open>\<open>errno_after\<close> is \<open>errno\<close> when the walk ends.\<close>

definition flow_refresh ::
    "(kwatch_flow_key option \<Rightarrow> kwatch_flow_key option) \<Rightarrow> (kwatch_flow_key \<rightharpoonup> kwatch_flow_stats) \<Rightarrow> int \<Rightarrow>
     (flow_map_entry list \<times> bool) option" where
  "flow_refresh next m errno_after =
     map_option (\<lambda>ks.
        (concat (map (\<lambda>k. case m k of Some s \<Rightarrow> [\<lparr>fe_key = k, fe_stats = s\<rparr>] | None \<Rightarrow> []) ks),
         errno_after = 0 \<or> errno_after = ENOENT))
       (key_walk next None [])"

section \<open>The walk visits every key once\<close>

lemma key_walk_from:
  "enumerates next ks \<Longrightarrow> i < length ks \<Longrightarrow> key_walk next (Some (ks ! i)) vs = Some (vs @ drop (Suc i) ks)"
proof (induction "length ks - i" arbitrary: i vs rule: less_induct)
  case less
  have nx: "next (Some (ks ! i)) = (if Suc i < length ks then Some (ks ! Suc i) else None)"
    using less.prems by (simp add: enumerates_def)
  show ?case
  proof (cases "Suc i < length ks")
    case True
    have "key_walk next (Some (ks ! Suc i)) (vs @ [ks ! Suc i]) = Some ((vs @ [ks ! Suc i]) @ drop (Suc (Suc i)) ks)"
      using less.prems True by (intro less.hyps) simp_all
    then show ?thesis using nx True by (subst key_walk.simps) (simp add: Cons_nth_drop_Suc)
  next
    case False
    then show ?thesis using nx less.prems by (subst key_walk.simps) simp
  qed
qed

lemma key_walk_all:
  assumes "enumerates next ks"
  shows "key_walk next None [] = Some ks"
proof (cases "ks = []")
  case True
  then have "next None = None" using assms by (simp add: enumerates_def)
  with True show ?thesis by (subst key_walk.simps) simp
next
  case False
  then have "next None = Some (ks ! 0)" using assms by (simp add: enumerates_def)
  then have "key_walk next None [] = key_walk next (Some (ks ! 0)) [ks ! 0]" by (subst key_walk.simps) simp
  also have "\<dots> = Some ([ks ! 0] @ drop 1 ks)" using key_walk_from[OF assms, of 0] False by simp
  finally show ?thesis using False by (cases ks) simp_all
qed

lemma key_walk_absent:
  assumes "enumerates next ks" "k \<notin> set ks"
  shows "key_walk next (Some k) [] = Some ks"
proof -
  have same: "next (Some k) = next None" using assms by (simp add: enumerates_def)
  have "key_walk next (Some k) [] = key_walk next None []"
    unfolding key_walk.simps[of "next" "Some k" "[]"] key_walk.simps[of "next" None "[]"] same ..
  with key_walk_all[OF assms(1)] show ?thesis by simp
qed

section \<open>What the kernel documents of the blacklist map\<close>

definition same_prefix :: "lpm_key \<Rightarrow> lpm_key \<Rightarrow> bool" where
  "same_prefix k q \<longleftrightarrow> fst k = fst q \<and> lpm_match (unat (fst k)) (snd k) (snd q)"

text \<open>
  An update may be refused, with \<open>EINVAL\<close> for a prefix length above 32, with \<open>ENOSPC\<close> when the map is full,
  or with \<open>ENOMEM\<close>; the map is then as before.
\<close>

definition lpm_update_law :: "lpm_ops \<Rightarrow> bool" where
  "lpm_update_law ops \<longleftrightarrow> (\<forall>k v m.
     if fst (lpm_update ops k v m) = 0
     then dom (snd (lpm_update ops k v m)) = {q \<in> dom m. \<not> same_prefix k q} \<union> {k}
     else snd (lpm_update ops k v m) = m)"

definition lpm_delete_law :: "lpm_ops \<Rightarrow> bool" where
  "lpm_delete_law ops \<longleftrightarrow> (\<forall>k m.
     (fst (lpm_delete ops k m) = 0 \<longleftrightarrow> (\<exists>q \<in> dom m. same_prefix k q)) \<and>
     dom (snd (lpm_delete ops k m)) = {q \<in> dom m. \<not> same_prefix k q})"

definition lpm_map_law :: "lpm_ops \<Rightarrow> bool" where
  "lpm_map_law ops \<longleftrightarrow> lpm_update_law ops \<and> lpm_delete_law ops \<and>
     (\<forall>m k. k \<in> dom m \<longrightarrow> lpm_get ops k m \<noteq> None)"

text \<open>The sources a blacklist covers.\<close>

definition covers :: "lpm_map \<Rightarrow> u32 \<Rightarrow> bool" where
  "covers m a \<longleftrightarrow> (\<exists>n p. (n, p) \<in> dom m \<and> lpm_match (unat n) p a)"

definition names_addr :: "string \<Rightarrow> u32 \<Rightarrow> bool" where
  "names_addr s a \<longleftrightarrow> (\<exists>p n. parse_cidr s = Ok (p, n) \<and> lpm_match (unat n) p a)"

lemma unat_ucast_u8 [simp]: "unat (ucast (n :: u8) :: u32) = unat n"
  using unat_bound(1)[of n] by (simp add: unsigned_ucast_eq take_bit_nat_eq_self)

lemma update_law:
  assumes "lpm_map_law ops" "lpm_update ops k v m = (ret, m')"
  shows "if ret = 0 then dom m' = {q \<in> dom m. \<not> same_prefix k q} \<union> {k} else m' = m"
  using assms(1)[unfolded lpm_map_law_def lpm_update_law_def, THEN conjunct1, rule_format, of k v m]
  unfolding assms(2) fst_conv snd_conv .

lemma delete_law:
  assumes "lpm_map_law ops" "lpm_delete ops k m = (ret, m')"
  shows "(ret = 0 \<longleftrightarrow> (\<exists>q \<in> dom m. same_prefix k q)) \<and> dom m' = {q \<in> dom m. \<not> same_prefix k q}"
  using assms(1)[unfolded lpm_map_law_def lpm_delete_law_def, THEN conjunct2, THEN conjunct1, rule_format, of k m] assms(2)
  by simp

lemma update_covers:
  assumes "lpm_map_law ops" "lpm_update ops (n, p) v m = (0, m')"
  shows "covers m' a \<longleftrightarrow> covers m a \<or> lpm_match (unat n) p a"
proof -
  have d: "dom m' = {q \<in> dom m. \<not> same_prefix (n, p) q} \<union> {(n, p)}"
    using update_law[OF assms] by simp
  have "lpm_match (unat n) p a" if "same_prefix (n, p) (n', p')" "lpm_match (unat n') p' a" for n' p'
    using that lpm_match_trans[of "unat n" p p' a] by (auto simp: same_prefix_def)
  then show ?thesis unfolding covers_def d by blast
qed

text \<open>The loops, argument by argument.\<close>

lemma block_loop_covers:
  assumes law: "lpm_map_law ops"
  shows "block_loop ops as ok m = (ok', m') \<Longrightarrow>
    (ok' \<longrightarrow> ok \<and> (\<forall>s \<in> set as. is_ok (parse_cidr s))) \<and>
    (\<forall>a. covers m a \<longrightarrow> covers m' a) \<and> (\<forall>a. covers m' a \<longrightarrow> covers m a \<or> (\<exists>s \<in> set as. names_addr s a)) \<and>
    (ok' \<longrightarrow> (\<forall>a. \<forall>s \<in> set as. names_addr s a \<longrightarrow> covers m' a))"
proof (induction as arbitrary: ok m)
  case (Cons s as)
  show ?case
  proof (cases "parse_cidr s")
    case (Err e)
    then have run: "block_loop ops as False m = (ok', m')" using Cons.prems by simp
    have "\<not> names_addr s a" for a using Err by (simp add: names_addr_def)
    with Cons.IH[OF run] Err show ?thesis by auto
  next
    case (Ok r)
    obtain p n where r: "r = (p, n)" by (cases r)
    obtain ret m1 where u: "lpm_update ops (ucast n, p) 1 m = (ret, m1)"
      by (cases "lpm_update ops (ucast n, p) 1 m")
    have run: "block_loop ops as (if ret \<noteq> 0 then False else ok) m1 = (ok', m')"
      using Cons.prems Ok r u by (simp add: cidr_key_def)
    have s: "names_addr s a \<longleftrightarrow> lpm_match (unat n) p a" for a using Ok r by (simp add: names_addr_def)
    note IH = Cons.IH[OF run]
    show ?thesis
    proof (cases "ret = 0")
      case True
      then have "covers m1 a \<longleftrightarrow> covers m a \<or> names_addr s a" for a
        using update_covers[OF law, of "ucast n" p 1 m m1 a] u s by simp
      with IH True Ok show ?thesis by auto
    next
      case False
      then have "m1 = m" using update_law[OF law u] by simp
      with IH False show ?thesis by auto
    qed
  qed
qed (auto)

definition prefix_named :: "string list \<Rightarrow> lpm_key \<Rightarrow> bool" where
  "prefix_named as q \<longleftrightarrow> (\<exists>s \<in> set as. \<exists>r. parse_cidr s = Ok r \<and> same_prefix (cidr_key r) q)"

lemma unblock_loop_dom:
  assumes law: "lpm_map_law ops"
  shows "unblock_loop ops as ok m = (ok', m') \<Longrightarrow>
    dom m' = {q \<in> dom m. \<not> prefix_named as q} \<and> (ok' \<longrightarrow> ok \<and> (\<forall>s \<in> set as. is_ok (parse_cidr s)))"
proof (induction as arbitrary: ok m)
  case (Cons s as)
  show ?case
  proof (cases "parse_cidr s")
    case (Err e)
    with Cons show ?thesis by (auto simp: prefix_named_def)
  next
    case (Ok r)
    obtain ret m1 where d: "lpm_delete ops (cidr_key r) m = (ret, m1)" by (cases "lpm_delete ops (cidr_key r) m")
    have run: "unblock_loop ops as (if ret \<noteq> 0 then False else ok) m1 = (ok', m')" using Cons.prems Ok d by simp
    have "prefix_named (s # as) q \<longleftrightarrow> same_prefix (cidr_key r) q \<or> prefix_named as q" for q
      unfolding prefix_named_def using Ok by (auto simp del: split_paired_Ex split_paired_All)
    moreover have "ok' \<longrightarrow> ok" using Cons.IH[OF run] by (simp split: if_splits)
    moreover have "dom m1 = {q \<in> dom m. \<not> same_prefix (cidr_key r) q}" using delete_law[OF law d] by simp
    ultimately show ?thesis using Cons.IH[OF run] Ok by auto
  qed
qed (auto simp: prefix_named_def)

lemma cmd_block_covers:
  assumes "lpm_map_law ops" "cmd_block ops proc h args m = (code, m')"
  shows "(\<forall>a. covers m a \<longrightarrow> covers m' a) \<and>
    (\<forall>a. covers m' a \<longrightarrow> covers m a \<or> (\<exists>s \<in> set (drop 1 args). names_addr s a)) \<and>
    (code = 0 \<longrightarrow> (\<forall>s \<in> set (drop 1 args). is_ok (parse_cidr s) \<and> (\<forall>a. names_addr s a \<longrightarrow> covers m' a))) \<and>
    (code = 0 \<or> code = 64 \<or> code = 65)"
proof (cases "length args < 2 \<or> \<not> get_blacklist_fd proc h (args ! 0)")
  case True
  then show ?thesis using assms(2) by (auto simp: cmd_block_def split: if_splits)
next
  case False
  obtain ok m1 where run: "block_loop ops (drop 1 args) True m = (ok, m1)"
    by (cases "block_loop ops (drop 1 args) True m")
  with False assms(2) have "m' = m1" "code = (if ok then 0 else 65)" by (auto simp: cmd_block_def)
  with block_loop_covers[OF assms(1) run] show ?thesis by auto
qed

lemma flow_refresh_map:
  assumes "enumerates nxt ks" "set ks = dom m" "e = 0 \<or> e = ENOENT"
  shows "flow_refresh nxt m e = Some (map (\<lambda>k. \<lparr>fe_key = k, fe_stats = the (m k)\<rparr>) ks, True)"
proof -
  have "concat (map (\<lambda>k. case m k of Some s \<Rightarrow> [\<lparr>fe_key = k, fe_stats = s\<rparr>] | None \<Rightarrow> []) ks') =
      map (\<lambda>k. \<lparr>fe_key = k, fe_stats = the (m k)\<rparr>) ks'" if "set ks' \<subseteq> dom m" for ks'
    using that by (induction ks') auto
  with assms show ?thesis by (simp add: flow_refresh_def key_walk_all[OF assms(1)])
qed

section \<open>A reference kernel for the user-space calls\<close>

text \<open>\<open>max_entries\<close> of the map \<open>blacklist\<close>; a full map refuses new prefixes.\<close>

definition blacklist_max :: nat where "blacklist_max = 1024"

definition ref_ops :: "(lpm_map \<Rightarrow> lpm_key option \<Rightarrow> lpm_key option) \<Rightarrow> lpm_ops" where
  "ref_ops nxt = \<lparr>
     lpm_update = (\<lambda>k v m.
       if 32 < unat (fst k) then (EINVAL, m)
       else if blacklist_max \<le> card (dom m) \<and> \<not> (\<exists>q \<in> dom m. same_prefix k q) then (ENOSPC, m)
       else (0, (\<lambda>q. if same_prefix k q then None else m q)(k \<mapsto> v))),
     lpm_delete = (\<lambda>k m. (if \<exists>q \<in> dom m. same_prefix k q then 0 else 2, \<lambda>q. if same_prefix k q then None else m q)),
     lpm_next = nxt, lpm_get = (\<lambda>k m. m k)\<rparr>"

lemma same_prefix_refl [simp]: "same_prefix k k"
  by (simp add: same_prefix_def)

lemma ref_ops_law: "lpm_map_law (ref_ops nxt)"
proof -
  have "lpm_update_law (ref_ops nxt)" 
    by (auto simp: lpm_update_law_def ref_ops_def EINVAL_def ENOSPC_def split: if_split_asm)
  moreover have "lpm_delete_law (ref_ops nxt)" by (auto simp: lpm_delete_law_def ref_ops_def dom_def)
  moreover have "k \<in> dom m \<Longrightarrow> lpm_get (ref_ops nxt) k m \<noteq> None" for m k by (auto simp: ref_ops_def)
  ultimately show ?thesis by (simp add: lpm_map_law_def)
qed

lemma ref_update_room:
  "unat (fst k) \<le> 32 \<Longrightarrow> card (dom m) < blacklist_max \<Longrightarrow> fst (lpm_update (ref_ops nxt) k v m) = 0"
  by (simp add: ref_ops_def)

definition one_next :: "'k \<Rightarrow> 'k option \<Rightarrow> 'k option" where
  "one_next k cur = (if cur = Some k then None else Some k)"

lemma enumerates_one: "enumerates (one_next k) [k]"
  by (auto simp: enumerates_def one_next_def)

text \<open>A host on which process 42 owns \<open>lo\<close> and its maps are pinned.\<close>

definition owned_host :: host where
  "owned_host = \<lparr>h_files = [(''/run/kwatch/lo/owner.pid'', owner_text \<lparr>owner_pid = 42, start_time_ticks = 77\<rparr>),
      (''/sys/fs/bpf/kwatch_lo/blacklist'', []), (''/sys/fs/bpf/kwatch_lo/pkt_counts'', [])],
     h_dirs = [], h_fault = (\<lambda>_ _. None)\<rparr>"

lemma owned_opens: "map_opens demo_proc owned_host ''lo'' ''blacklist''" "map_opens demo_proc owned_host ''lo'' ''pkt_counts''"
proof -
  have "read_owner_state owned_host (owner_pid_path_for_iface ''lo'') = Ok \<lparr>owner_pid = 42, start_time_ticks = 77\<rparr>"
    by (rule read_written_owner)
      (simp_all add: owner_valid_def owned_host_def owner_pid_path_for_iface_def owner_state_dir_for_iface_def)
  moreover have "is_owner_alive demo_proc \<lparr>owner_pid = 42, start_time_ticks = 77\<rparr>"
    by (simp add: is_owner_alive_def demo_read)
  ultimately show "map_opens demo_proc owned_host ''lo'' ''blacklist''" "map_opens demo_proc owned_host ''lo'' ''pkt_counts''"
    by (simp_all add: map_opens_def owned_host_def pin_path_for_iface_def)
qed

section \<open>Properties\<close>

text \<open>
  Property C18. \<open>kwatch block\<close> only ever adds: every source covered before stays covered, and a
  newly covered source lies in a prefix named on the command line. When it exits with 0, all arguments
  were valid and exactly the named prefixes have been added; other exit codes are 64 and 65.
\<close>

theorem block_effect:
  assumes "lpm_map_law ops" "cmd_block ops proc h args m = (code, m')"
  shows "(\<forall>a. covers m a \<longrightarrow> covers m' a) \<and>
    (\<forall>a. covers m' a \<longrightarrow> covers m a \<or> (\<exists>s \<in> set (drop 1 args). names_addr s a)) \<and>
    (code = 0 \<longrightarrow> (\<forall>s \<in> set (drop 1 args). is_ok (parse_cidr s) \<and> (\<forall>a. names_addr s a \<longrightarrow> covers m' a))) \<and>
    (code = 0 \<or> code = 64 \<or> code = 65)"
  using assms by (rule cmd_block_covers)

theorem block_effect_witness:
  "covers (snd (cmd_block (ref_ops (\<lambda>_ _. None)) demo_proc owned_host [''lo'', cidr_text (0x0000000A, 8)] Map.empty)) 0x0100000A"
proof -
  let ?ops = "ref_ops (\<lambda>_ _. None)" and ?s = "cidr_text (0x0000000A, 8)"
  have p: "parse_cidr ?s = Ok (0x0000000A, 8)" by (rule parse_cidr_text) simp
  have "fst (lpm_update ?ops (8, 0x0000000A) 1 Map.empty) = 0" by (rule ref_update_room) (simp_all add: blacklist_max_def)
  then obtain m' where run: "cmd_block ?ops demo_proc owned_host [''lo'', ?s] Map.empty = (0, m')"
    using owned_opens p by (simp add: cmd_block_def get_blacklist_fd_def case_prod_beta cidr_key_def)
  have "names_addr ?s 0x0100000A"
    unfolding names_addr_def p by (simp add: lpm_match_def net_bit_def byte_at_def upt_rec)
  with block_effect[OF ref_ops_law run] show ?thesis using run by simp
qed

text \<open>
  Property C19. \<open>kwatch unblock\<close> removes exactly the entries whose prefix is named on the
  command line, even when some arguments fail; it exits with 0 only if every argument was a valid
  prefix.
\<close>

theorem unblock_effect:
  assumes "lpm_map_law ops" "cmd_unblock ops proc h args m = (code, m')"
    and "2 \<le> length args" "get_blacklist_fd proc h (args ! 0)"
  shows "dom m' = {q \<in> dom m. \<not> prefix_named (drop 1 args) q} \<and>
    (code = 0 \<longrightarrow> (\<forall>s \<in> set (drop 1 args). is_ok (parse_cidr s))) \<and> (code = 0 \<or> code = 65)"
proof -
  obtain ok m1 where run: "unblock_loop ops (drop 1 args) True m = (ok, m1)"
    by (cases "unblock_loop ops (drop 1 args) True m")
  with assms(2-) have "m' = m1" "code = (if ok then 0 else 65)" by (auto simp: cmd_unblock_def)
  with unblock_loop_dom[OF assms(1) run] show ?thesis by auto
qed

theorem unblock_effect_witness:
  "dom (snd (cmd_unblock (ref_ops (\<lambda>_ _. None)) demo_proc owned_host [''lo'', cidr_text (0x0000000A, 8)]
     [(8, 0x0000000A) \<mapsto> 1])) = {}"
proof -
  let ?s = "cidr_text (0x0000000A, 8)"
  have "parse_cidr ?s = Ok (0x0000000A, 8)" by (rule parse_cidr_text) simp
  then have "prefix_named [?s] (8, 0x0000000A)" by (auto simp: prefix_named_def cidr_key_def)
  moreover obtain code m' where run: "cmd_unblock (ref_ops (\<lambda>_ _. None)) demo_proc owned_host [''lo'', ?s]
      [(8, 0x0000000A) \<mapsto> 1] = (code, m')" by (rule prod.exhaust)
  ultimately show ?thesis using unblock_effect[OF ref_ops_law run] owned_opens(1) by (simp add: get_blacklist_fd_def)
qed

text \<open>
  Property C20. \<open>kwatch list\<close> prints one line per entry, each entry once, and \<open>parse_cidr\<close> reads
  every printed line back as the entry's address and prefix length: the output of \<open>list\<close> can be fed to
  \<open>block\<close> again.
\<close>

theorem list_roundtrip:
  assumes "lpm_map_law ops" "enumerates (lpm_next ops m) ks" "set ks = dom m" "get_blacklist_fd proc h ifn"
    and "\<forall>k \<in> dom m. unat (fst k) \<le> 32"
  shows "\<exists>lines. cmd_list ops proc h [ifn] m = Some (0, concat (map (\<lambda>l. l @ nl) lines)) \<and>
    map parse_cidr lines = map (\<lambda>k. Ok (snd k, ucast (fst k))) ks"
proof (intro exI conjI)
  have "filter (\<lambda>k. lpm_get ops k m \<noteq> None) ks = ks"
    using assms(1)[unfolded lpm_map_law_def, THEN conjunct2, THEN conjunct2, rule_format] assms(3)
    by (intro filter_True) simp
  then show "cmd_list ops proc h [ifn] m = Some (0, concat (map (\<lambda>l. l @ nl) (map list_line ks)))"
    using assms(4) key_walk_all[OF assms(2)] by (simp add: cmd_list_def comp_def)
  have "parse_cidr (list_line k) = Ok (snd k, ucast (fst k))" if "k \<in> set ks" for k
  proof -
    have le: "unat (fst k) \<le> 32" using that assms(3,5) by auto
    then have "unat (ucast (fst k) :: u8) = unat (fst k)" by (simp add: unsigned_ucast_eq take_bit_nat_eq_self)
    with le parse_cidr_text[of "(snd k, ucast (fst k))"] show ?thesis by (simp add: list_line_def cidr_text_def)
  qed
  then show "map parse_cidr (map list_line ks) = map (\<lambda>k. Ok (snd k, ucast (fst k))) ks" by simp
qed

theorem list_roundtrip_witness:
  "\<exists>lines. cmd_list (ref_ops (\<lambda>_. one_next (8, 0x0000000A))) demo_proc owned_host [''lo''] [(8, 0x0000000A) \<mapsto> 1] =
     Some (0, concat (map (\<lambda>l. l @ nl) lines)) \<and> map parse_cidr lines = [Ok (0x0000000A, 8)]"
  using list_roundtrip[OF ref_ops_law, of "\<lambda>_. one_next (8, 0x0000000A)" "[(8, 0x0000000A) \<mapsto> 1]" "[(8, 0x0000000A)]"
      demo_proc owned_host "''lo''"] enumerates_one[of "(8 :: u32, 0x0000000A :: u32)"] owned_opens(1)
  by (simp add: ref_ops_def get_blacklist_fd_def)

text \<open>
  Property C22. \<open>kwatch stats\<close> prints the counters the kernel enumerates after the key 0: all of
  them while there is no counter for protocol number 0, but only those that follow it once there is one,
  and never the counter of protocol 0 itself.
\<close>

theorem stats_walk:
  assumes "enumerates nxt ks" "\<forall>k \<in> set ks. m k \<noteq> None" "map_opens proc h ifn ''pkt_counts''"
    and "shown = (if 0 \<in> set ks then tl (dropWhile (\<lambda>k. k \<noteq> 0) ks) else ks)"
  shows "cmd_stats proc h [ifn] nxt m =
    Some (0, stats_header @ concat (map (\<lambda>k. stats_line (k, the (m k))) shown))"
proof -
  have walk: "key_walk nxt (Some 0) [] = Some shown"
  proof (cases "0 \<in> set ks")
    case True
    define i where "i = length (takeWhile (\<lambda>k. k \<noteq> 0) ks)"
    have "takeWhile (\<lambda>k. k \<noteq> 0) ks \<noteq> ks" using True by (auto simp: takeWhile_eq_all_conv)
    then have "i \<noteq> length ks" unfolding i_def by (metis order_refl take_all takeWhile_eq_take)
    then have i: "i < length ks" unfolding i_def using length_takeWhile_le[of "\<lambda>k. k \<noteq> 0" ks] by simp
    then have at: "ks ! i = 0" unfolding i_def by (metis (mono_tags, lifting) nth_length_takeWhile)
    have "dropWhile (\<lambda>k. k \<noteq> 0) ks = drop i ks" by (simp add: i_def dropWhile_eq_drop)
    then have "shown = drop (Suc i) ks" using assms(4) True by (simp add: drop_Suc tl_drop)
    with key_walk_from[OF assms(1) i, of "[]"] at show ?thesis by simp
  qed (use key_walk_absent[OF assms(1)] assms(4) in auto)
  have sub: "set shown \<subseteq> set ks"
    using assms(4) by (auto simp: dropWhile_eq_drop tl_drop dest!: in_set_dropD split: if_splits)
      (metis list.sel(2) list.set_sel(2))
  then have "concat (map (\<lambda>k. case m k of Some v \<Rightarrow> [(k, v)] | None \<Rightarrow> []) shown) = map (\<lambda>k. (k, the (m k))) shown"
    using assms(2) by (induction shown) auto
  with walk assms(3) show ?thesis by (simp add: cmd_stats_def comp_def)
qed

theorem stats_walk_witness:
  "cmd_stats demo_proc owned_host [''lo''] (one_next 0) [0 \<mapsto> 5] = Some (0, stats_header)"
  using stats_walk[OF enumerates_one[of "0 :: u32"], of "[0 \<mapsto> 5]" demo_proc owned_host "''lo''", OF _ _ refl] owned_opens(2)
  by simp

text \<open>
  Property C21. On a flow table that does not change meanwhile, the snapshot terminates and
  holds every flow exactly once with its counters.
\<close>

theorem flow_refresh_exact:
  assumes "enumerates nxt ks" "set ks = dom m" "e = 0 \<or> e = ENOENT"
  shows "\<exists>es. flow_refresh nxt m e = Some (es, True) \<and> map fe_key es = ks \<and>
    (\<forall>en \<in> set es. m (fe_key en) = Some (fe_stats en))"
  using assms by (auto simp: flow_refresh_map[OF assms] comp_def)

theorem flow_refresh_exact_witness:
  "\<exists>es. flow_refresh (one_next (flow_key_of syn_packet)) [flow_key_of syn_packet \<mapsto> new_flow_stats 5 2] 2 = Some (es, True) \<and>
     length es = 1"
proof -
  obtain es where "flow_refresh (one_next (flow_key_of syn_packet)) [flow_key_of syn_packet \<mapsto> new_flow_stats 5 2] 2 = Some (es, True)"
    "map fe_key es = [flow_key_of syn_packet]"
    using flow_refresh_exact[OF enumerates_one, of "flow_key_of syn_packet" "[flow_key_of syn_packet \<mapsto> new_flow_stats 5 2]" 2]
    by (auto simp: ENOENT_def)
  then show ?thesis by (metis length_map length_Cons list.size(3) One_nat_def)
qed

end
