(* ===== verification/KW_Runtime.thy ===== *)
theory KW_Runtime
  imports KW_Event "HOL-Library.Multiset"
begin

text \<open>
  The run-time resources of the program: \<open>src/util/fd.h\<close> (\<open>UniqueFd\<close>), \<open>src/bpf/attach.cpp\<close>
  (\<open>XdpAttach\<close>), \<open>src/bpf/ringbuf.cpp\<close> (\<open>RingBuf\<close>), \<open>src/core/tick.cpp\<close> (\<open>TickTimer\<close>) and
  \<open>src/util/signals.cpp\<close> (\<open>SignalHandler\<close>). An operation returns, beside its result, the list of the
  file descriptors it closes. What the kernel answers to \<open>bpf_link_create\<close>, \<open>timerfd_create\<close>,
  \<open>signalfd\<close> and so on is an argument, and so is \<open>ring_buffer__consume\<close> of libbpf. The two classes that
  own a descriptor share the contract \<open>fd_owner\<close>.
\<close>

section \<open>Owning a file descriptor\<close>

record ('o, 'x) owner_ops =
  op_acquire :: "'x \<Rightarrow> 'o \<Rightarrow> 'o \<times> int list"
  op_move :: "'o \<Rightarrow> 'o \<times> 'o"
  op_assign :: "'o \<Rightarrow> 'o \<Rightarrow> 'o \<times> 'o \<times> int list"
  op_destroy :: "'o \<Rightarrow> int list"

text \<open>
  What a program can do with a pool of such objects: let one acquire a descriptor, move-construct a new
  object from one, move-assign one to another (or to itself, which does nothing), destroy one. The state
  is the pool and the list of the descriptors closed so far.
\<close>

datatype 'x own_op = Acquire nat 'x | MoveNew nat | MoveAssign nat nat | Destroy nat

fun own_step :: "('o, 'x) owner_ops \<Rightarrow> 'x own_op \<Rightarrow> 'o list \<times> int list \<Rightarrow> 'o list \<times> int list" where
  "own_step ops (Acquire i x) (os, cl) =
     (if i < length os then (let (a, c) = op_acquire ops x (os ! i) in (os[i := a], cl @ c)) else (os, cl))"
| "own_step ops (MoveNew i) (os, cl) =
     (if i < length os then (let (a, b) = op_move ops (os ! i) in (os[i := b] @ [a], cl)) else (os, cl))"
| "own_step ops (MoveAssign i j) (os, cl) =
     (if i < length os \<and> j < length os \<and> i \<noteq> j
      then (let (a, b, c) = op_assign ops (os ! i) (os ! j) in (os[i := a, j := b], cl @ c)) else (os, cl))"
| "own_step ops (Destroy i) (os, cl) =
     (if i < length os then (take i os @ drop (Suc i) os, cl @ op_destroy ops (os ! i)) else (os, cl))"

definition own_run :: "('o, 'x) owner_ops \<Rightarrow> 'x own_op list \<Rightarrow> 'o list \<times> int list \<Rightarrow> 'o list \<times> int list" where
  "own_run ops xs = fold (own_step ops) xs"

text \<open>The descriptors handed out by the kernel during a run, \<open>got x\<close> in an acquisition \<open>x\<close>.\<close>

fun handed_out :: "('o, 'x) owner_ops \<Rightarrow> ('x \<Rightarrow> int list) \<Rightarrow> 'x own_op list \<Rightarrow> 'o list \<times> int list \<Rightarrow> int list" where
  "handed_out ops got [] st = []"
| "handed_out ops got (x # xs) st =
     (case x of Acquire i y \<Rightarrow> if i < length (fst st) then got y else [] | _ \<Rightarrow> []) @
     handed_out ops got xs (own_step ops x st)"

lemma mset_concat_update:
  "i < length xs \<Longrightarrow> mset (concat (map f (xs[i := x]))) + mset (f (xs ! i)) = mset (concat (map f xs)) + mset (f x)"
proof (induction xs arbitrary: i)
  case (Cons y ys)
  show ?case
  proof (cases i)
    case (Suc j)
    then have "mset (concat (map f (ys[j := x]))) + mset (f (ys ! j)) = mset (concat (map f ys)) + mset (f x)"
      using Cons by simp
    with Suc show ?thesis by (simp add: ac_simps)
  qed simp
qed simp

lemma mset_concat_remove:
  "i < length xs \<Longrightarrow> mset (concat (map f (take i xs @ drop (Suc i) xs))) + mset (f (xs ! i)) = mset (concat (map f xs))"
proof -
  assume "i < length xs"
  then have "map f xs = map f (take i xs) @ f (xs ! i) # map f (drop (Suc i) xs)"
    using id_take_nth_drop[of i xs] by (metis list.simps(9) map_append)
  then show ?thesis by (simp add: ac_simps)
qed

lemma mset_shift:
  fixes x :: "'a multiset"
  assumes "x + p = m + q" "y + q = x"
  shows "y + p = m"
proof -
  have "(y + p) + q = m + q" using assms by (simp add: ac_simps)
  then show ?thesis by (rule add_right_imp_eq)
qed

locale fd_owner =
  fixes ops :: "('o, 'x) owner_ops" and owned :: "'o \<Rightarrow> int list" and got :: "'x \<Rightarrow> int list"
  assumes acquire_law: "op_acquire ops x ob = (a, c) \<Longrightarrow> c = owned ob \<and> owned a = got x"
    and move_law: "op_move ops ob = (a, b) \<Longrightarrow> owned a = owned ob \<and> owned b = []"
    and assign_law: "op_assign ops p q = (a, b, c) \<Longrightarrow> c = owned p \<and> owned a = owned q \<and> owned b = []"
    and destroy_law: "op_destroy ops ob = owned ob"
begin

definition held :: "'o list \<times> int list \<Rightarrow> int multiset" where
  "held st = mset (concat (map owned (fst st))) + mset (snd st)"

lemma assign_conserves:
  assumes "op_assign ops (os ! i) (os ! j) = (a, b, c)" "i < length os" "j < length os" "i \<noteq> j"
  shows "mset (concat (map owned (os[i := a, j := b]))) + mset c = mset (concat (map owned os))"
proof -
  have law: "c = owned (os ! i)" "owned a = owned (os ! j)" "owned b = []" using assign_law[OF assms(1)] by simp_all
  have first: "mset (concat (map owned (os[i := a]))) + mset c = mset (concat (map owned os)) + mset (owned (os ! j))"
    using assms(2) mset_concat_update[of i os owned a] law by simp
  have second: "mset (concat (map owned (os[i := a, j := b]))) + mset (owned (os ! j)) =
      mset (concat (map owned (os[i := a])))"
    using assms(3,4) mset_concat_update[of j "os[i := a]" owned b] law by simp
  show ?thesis by (rule mset_shift[OF first second])
qed

lemma step_conserves:
  "held (own_step ops x st) =
     held st + mset (case x of Acquire i y \<Rightarrow> if i < length (fst st) then got y else [] | _ \<Rightarrow> [])"
proof -
  obtain os cl where st: "st = (os, cl)" by (cases st)
  show ?thesis
  proof (cases x)
    case (Acquire i y)
    show ?thesis
    proof (cases "i < length os")
      case True
      obtain a c where ac: "op_acquire ops y (os ! i) = (a, c)" by (cases "op_acquire ops y (os ! i)")
      have "mset (concat (map owned (os[i := a]))) + mset (owned (os ! i)) = mset (concat (map owned os)) + mset (owned a)"
        by (rule mset_concat_update[OF True])
      with acquire_law[OF ac] ac True Acquire st show ?thesis by (simp add: held_def ac_simps)
    qed (simp add: Acquire st)
  next
    case (MoveNew i)
    show ?thesis
    proof (cases "i < length os")
      case True
      obtain a b where ab: "op_move ops (os ! i) = (a, b)" by (cases "op_move ops (os ! i)")
      have "mset (concat (map owned (os[i := b]))) + mset (owned (os ! i)) = mset (concat (map owned os)) + mset (owned b)"
        by (rule mset_concat_update[OF True])
      with move_law[OF ab] ab True MoveNew st show ?thesis by (simp add: held_def ac_simps)
    qed (simp add: MoveNew st)
  next
    case (MoveAssign i j)
    show ?thesis
    proof (cases "i < length os \<and> j < length os \<and> i \<noteq> j")
      case True
      obtain a b c where abc: "op_assign ops (os ! i) (os ! j) = (a, b, c)" by (cases "op_assign ops (os ! i) (os ! j)")
      with assign_conserves[OF abc] True MoveAssign st show ?thesis by (simp add: held_def ac_simps)
    qed (auto simp: MoveAssign st)
  next
    case (Destroy i)
    with st mset_concat_remove[of i os owned] show ?thesis
      by (simp add: held_def destroy_law ac_simps)
  qed
qed

theorem run_conserves: "held (own_run ops xs st) = held st + mset (handed_out ops got xs st)"
  unfolding own_run_def
  by (induction xs arbitrary: st) (simp_all add: step_conserves ac_simps)

end


section \<open>UniqueFd\<close>

record unique_fd =
  ufd_fd :: int

definition is_open_fd :: "int \<Rightarrow> bool" where
  "is_open_fd v \<longleftrightarrow> 0 \<le> v"

text \<open>\<open>if (is_open_fd(fd)) close(fd);\<close>\<close>

definition close_if_open :: "int \<Rightarrow> int list" where
  "close_if_open fd = (if is_open_fd fd then [fd] else [])"

definition ufd_destroy :: "unique_fd \<Rightarrow> int list" where
  "ufd_destroy u = close_if_open (ufd_fd u)"

definition ufd_move :: "unique_fd \<Rightarrow> unique_fd \<times> unique_fd" where
  "ufd_move other = (\<lparr>ufd_fd = ufd_fd other\<rparr>, other\<lparr>ufd_fd := -1\<rparr>)"

text \<open>The assignment between two different objects; \<open>own_step\<close> has the guard \<open>this != &other\<close>.\<close>

definition ufd_assign :: "unique_fd \<Rightarrow> unique_fd \<Rightarrow> unique_fd \<times> unique_fd \<times> int list" where
  "ufd_assign u other =
     (u\<lparr>ufd_fd := ufd_fd other\<rparr>, other\<lparr>ufd_fd := -1\<rparr>, close_if_open (ufd_fd u))"

definition ufd_get :: "unique_fd \<Rightarrow> int" where
  "ufd_get u = ufd_fd u"

definition ufd_is_valid :: "unique_fd \<Rightarrow> bool" where
  "ufd_is_valid u = is_open_fd (ufd_fd u)"

definition ufd_reset :: "int \<Rightarrow> unique_fd \<Rightarrow> unique_fd \<times> int list" where
  "ufd_reset f u = (u\<lparr>ufd_fd := f\<rparr>, close_if_open (ufd_fd u))"

definition ufd_release :: "unique_fd \<Rightarrow> int \<times> unique_fd" where
  "ufd_release u = (ufd_fd u, u\<lparr>ufd_fd := -1\<rparr>)"

definition ufd_ops :: "(unique_fd, int) owner_ops" where
  "ufd_ops = \<lparr>op_acquire = ufd_reset, op_move = ufd_move, op_assign = ufd_assign, op_destroy = ufd_destroy\<rparr>"

interpretation ufd: fd_owner ufd_ops ufd_destroy close_if_open
  by unfold_locales
    (auto simp: ufd_ops_def ufd_reset_def ufd_move_def ufd_assign_def ufd_destroy_def close_if_open_def is_open_fd_def)

section \<open>XdpAttach\<close>

record xdp_attach =
  if_index :: int
  link_fd :: int

definition XDP_FLAGS_SKB_MODE :: u32 where "XDP_FLAGS_SKB_MODE = 2"
definition XDP_FLAGS_DRV_MODE :: u32 where "XDP_FLAGS_DRV_MODE = 4"
definition XDP_FLAGS_HW_MODE :: u32 where "XDP_FLAGS_HW_MODE = 8"

definition XdpAttach :: "int \<Rightarrow> xdp_attach" where
  "XdpAttach index = \<lparr>if_index = index, link_fd = -1\<rparr>"

definition xdp_detach :: "xdp_attach \<Rightarrow> xdp_attach \<times> int list" where
  "xdp_detach a = (if 0 \<le> link_fd a then (a\<lparr>link_fd := -1\<rparr>, [link_fd a]) else (a, []))"

definition xdp_destroy :: "xdp_attach \<Rightarrow> int list" where
  "xdp_destroy a = snd (xdp_detach a)"

definition xdp_move :: "xdp_attach \<Rightarrow> xdp_attach \<times> xdp_attach" where
  "xdp_move other = (\<lparr>if_index = if_index other, link_fd = link_fd other\<rparr>, other\<lparr>link_fd := -1\<rparr>)"

definition xdp_assign :: "xdp_attach \<Rightarrow> xdp_attach \<Rightarrow> xdp_attach \<times> xdp_attach \<times> int list" where
  "xdp_assign a other =
     (let (a1, cl) = xdp_detach a in
      (a1\<lparr>if_index := if_index other, link_fd := link_fd other\<rparr>, other\<lparr>link_fd := -1\<rparr>, cl))"

text \<open>
  \<open>try_mode\<close>: the new descriptor, with \<open>used_mode\<close> and \<open>last_err\<close> updated. \<open>link_create\<close> is what
  \<open>bpf_link_create\<close> returns for the flags.
\<close>

definition try_mode ::
    "(u32 \<Rightarrow> int) \<Rightarrow> u32 \<Rightarrow> string \<Rightarrow> string \<times> int \<Rightarrow> int \<times> string \<times> int" where
  "try_mode link_create flags nm st =
     (let (used_mode, last_err) = st; fd = link_create flags in
      if 0 \<le> fd then (fd, nm, last_err) else (fd, used_mode, - fd))"

definition try_modes :: "(u32 \<Rightarrow> int) \<Rightarrow> string \<Rightarrow> int \<times> string \<times> int" where
  "try_modes link_create requested_mode =
     (if requested_mode = ''drv'' then try_mode link_create XDP_FLAGS_DRV_MODE ''drv'' ([], 0)
      else if requested_mode = ''skb'' then try_mode link_create XDP_FLAGS_SKB_MODE ''skb'' ([], 0)
      else if requested_mode = ''hw'' then try_mode link_create XDP_FLAGS_HW_MODE ''hw'' ([], 0)
      else let (fd, st) = try_mode link_create XDP_FLAGS_DRV_MODE ''drv'' ([], 0);
               (fd, st) = (if fd < 0 then try_mode link_create XDP_FLAGS_SKB_MODE ''skb'' st else (fd, st));
               (fd, st) = (if fd < 0 then try_mode link_create 0 ''generic'' st else (fd, st))
           in (fd, st))"

text \<open>The result, \<open>*err_out\<close>, the object and the closed descriptors.\<close>

definition attach ::
    "(int \<Rightarrow> string) \<Rightarrow> int \<Rightarrow> (u32 \<Rightarrow> int) \<Rightarrow> string \<Rightarrow> xdp_attach \<Rightarrow>
     (string result \<times> int) \<times> xdp_attach \<times> int list" where
  "attach strerror prog_fd link_create requested_mode a =
     (let (a, cl) = xdp_detach a in
      if prog_fd < 0 then ((Err ''Invalid BPF program fd'', 22), a, cl)
      else let (fd, used_mode, last_err) = try_modes link_create requested_mode in
      if fd < 0
      then ((Err (''Failed to attach XDP in mode='' @ requested_mode @ '': '' @ strerror last_err), last_err), a, cl)
      else ((Ok used_mode, 0), a\<lparr>link_fd := fd\<rparr>, cl))"

definition attach_got :: "int \<times> (u32 \<Rightarrow> int) \<times> string \<Rightarrow> int list" where
  "attach_got x =
     (let (prog_fd, link_create, md) = x in
      if prog_fd < 0 then [] else close_if_open (fst (try_modes link_create md)))"

definition xdp_ops :: "(xdp_attach, int \<times> (u32 \<Rightarrow> int) \<times> string) owner_ops" where
  "xdp_ops =
     \<lparr>op_acquire = (\<lambda>(prog_fd, link_create, md) a. snd (attach (\<lambda>_. []) prog_fd link_create md a)),
      op_move = xdp_move, op_assign = xdp_assign, op_destroy = xdp_destroy\<rparr>"

interpretation xdp: fd_owner xdp_ops xdp_destroy attach_got
  by unfold_locales
    (auto simp: xdp_ops_def attach_def xdp_move_def xdp_assign_def xdp_destroy_def xdp_detach_def attach_got_def
      close_if_open_def is_open_fd_def case_prod_beta Let_def split: if_splits)

section \<open>RingBuf\<close>

record 's ringbuf =
  rb_open :: bool
  rb_cb :: "(kwatch_event \<Rightarrow> 's \<Rightarrow> 's) option"
  error_count :: u64
  dropped_count :: u64
  callback_budget :: u64
  callbacks_this_drain :: u64

definition RingBuf :: "'s ringbuf" where
  "RingBuf = \<lparr>rb_open = False, rb_cb = None, error_count = 0, dropped_count = 0,
     callback_budget = 0, callbacks_this_drain = 0\<rparr>"

text \<open>\<open>created\<close> tells whether \<open>ring_buffer__new\<close> succeeds.\<close>

definition ringbuf_init :: "bool \<Rightarrow> (kwatch_event \<Rightarrow> 's \<Rightarrow> 's) \<Rightarrow> 's ringbuf \<Rightarrow> unit result \<times> 's ringbuf" where
  "ringbuf_init created cb rb =
     (let rb = rb\<lparr>rb_cb := Some cb, rb_open := created\<rparr> in
      if \<not> created then (Err ''ring_buffer__new failed'', rb) else (Ok (), rb))"

text \<open>The client state \<open>s\<close> is what the callback works on.\<close>

definition dispatch_event :: "u8 list \<Rightarrow> 's ringbuf \<times> 's \<Rightarrow> int \<times> 's ringbuf \<times> 's" where
  "dispatch_event data st =
     (let (rb, s) = st in
      if length data < sizeof_kwatch_event then (0, rb, s)
      else if callback_budget rb > 0 \<and> callbacks_this_drain rb \<ge> callback_budget rb
      then (1, rb\<lparr>dropped_count := dropped_count rb + 1\<rparr>, s)
      else (0, rb\<lparr>callbacks_this_drain := callbacks_this_drain rb + 1\<rparr>,
            case rb_cb rb of Some cb \<Rightarrow> cb (copy_event data) s | None \<Rightarrow> s))"

text \<open>
  \<open>ring_buffer__consume\<close> of libbpf hands the pending records to the sample callback; it is the argument
  \<open>ring_consume\<close>, whose first argument is the callback.
\<close>

type_synonym 'c ring_consume = "(u8 list \<Rightarrow> 'c \<Rightarrow> int \<times> 'c) \<Rightarrow> u8 list list \<Rightarrow> 'c \<Rightarrow> int \<times> 'c"

definition consume :: "('s ringbuf \<times> 's) ring_consume \<Rightarrow> u64 \<Rightarrow> u8 list list \<Rightarrow> 's ringbuf \<times> 's \<Rightarrow> 's ringbuf \<times> 's" where
  "consume ring_consume budget recs st =
     (let (rb, s) = st in
      if rb_open rb
      then (let (err, rb, s) = ring_consume dispatch_event recs
                  (rb\<lparr>callback_budget := budget, callbacks_this_drain := 0\<rparr>, s);
                rb = rb\<lparr>callback_budget := 0\<rparr>
            in (if err < 0 \<and> err \<noteq> -4 then rb\<lparr>error_count := error_count rb + 1\<rparr> else rb, s))
      else (rb, s))"

text \<open>
  What libbpf documents: while the callback does not return a negative value, every pending record is
  handed to it, in order, and the result is not negative.
\<close>

definition hands_over :: "'c ring_consume \<Rightarrow> bool" where
  "hands_over ring_consume \<longleftrightarrow> (\<forall>cb recs st. (\<forall>r s. 0 \<le> fst (cb r s)) \<longrightarrow>
     0 \<le> fst (ring_consume cb recs st) \<and> snd (ring_consume cb recs st) = fold (\<lambda>r s. snd (cb r s)) recs st)"

section \<open>TickTimer and SignalHandler\<close>

record tick_timer =
  tfd :: int

definition TickTimer :: tick_timer where
  "TickTimer = \<lparr>tfd = -1\<rparr>"

definition tick_destroy :: "tick_timer \<Rightarrow> int list" where
  "tick_destroy t = (if tfd t \<noteq> -1 then [tfd t] else [])"

text \<open>The armed value and interval as seconds and nanoseconds; \<open>settime\<close> is the result of \<open>timerfd_settime\<close>.\<close>

definition tick_init ::
    "int \<Rightarrow> (int \<times> int \<Rightarrow> int) \<Rightarrow> int \<Rightarrow> tick_timer \<Rightarrow> unit result \<times> tick_timer \<times> (int \<times> int) option \<times> int list" where
  "tick_init timerfd settime hz t =
     (if hz \<le> 0 then (Err ''Invalid hz'', t, None, [])
      else if timerfd = -1 then (Err ''timerfd_create failed'', t\<lparr>tfd := -1\<rparr>, None, [])
      else let interval_ns = 1000000000 div hz;
               its = (interval_ns div 1000000000, interval_ns mod 1000000000) in
      if settime its = -1 then (Err ''timerfd_settime failed'', t\<lparr>tfd := -1\<rparr>, None, [timerfd])
      else (Ok (), t\<lparr>tfd := timerfd\<rparr>, Some its, []))"

definition SIGINT :: int where "SIGINT = 2"
definition SIGKILL :: int where "SIGKILL = 9"
definition SIGTERM :: int where "SIGTERM = 15"

record signal_handler =
  sfd :: unique_fd

definition signal_mask :: "int set" where
  "signal_mask = {SIGINT, SIGTERM}"

definition signals_init :: "int \<Rightarrow> int \<Rightarrow> signal_handler \<Rightarrow> unit result \<times> signal_handler \<times> int list" where
  "signals_init procmask fd sh =
     (if procmask = -1 then (Err ''sigprocmask failed'', sh, [])
      else if fd = -1 then (Err ''signalfd failed'', sh, [])
      else let (u, cl) = ufd_reset fd (sfd sh) in (Ok (), sh\<lparr>sfd := u\<rparr>, cl))"

text \<open>\<open>read\<close> yields a full \<open>signalfd_siginfo\<close>, or not.\<close>

definition read_signal :: "int option \<Rightarrow> int" where
  "read_signal got = (case got of Some ssi_signo \<Rightarrow> ssi_signo | None \<Rightarrow> -1)"

section \<open>Draining the ring buffer\<close>

text \<open>The events among a list of records: the records of at least the size of an event.\<close>

definition events_of :: "u8 list list \<Rightarrow> kwatch_event list" where
  "events_of recs = map copy_event (filter (\<lambda>r. sizeof_kwatch_event \<le> length r) recs)"

lemma dispatch_nonneg: "0 \<le> fst (dispatch_event r st)"
  by (simp add: dispatch_event_def case_prod_beta Let_def)

text \<open>One drain from a count of \<open>d\<close> callbacks: the budget left is delivered, the rest counted as dropped.\<close>

lemma drain_budget:
  assumes "rb_cb rb = Some cb" "callback_budget rb > 0" "callbacks_this_drain rb \<le> callback_budget rb"
  shows "fold (\<lambda>r st. snd (dispatch_event r st)) recs (rb, s) =
    (let left = unat (callback_budget rb) - unat (callbacks_this_drain rb); evs = events_of recs in
     (rb\<lparr>dropped_count := dropped_count rb + of_nat (length evs - left),
        callbacks_this_drain := callbacks_this_drain rb + of_nat (min left (length evs))\<rparr>,
      fold cb (take left evs) s))"
  using assms
proof (induction recs arbitrary: rb s)
  case (Cons r recs)
  let ?left = "unat (callback_budget rb) - unat (callbacks_this_drain rb)"
  consider (small) "length r < sizeof_kwatch_event"
    | (full) "sizeof_kwatch_event \<le> length r" "callbacks_this_drain rb = callback_budget rb"
    | (more) "sizeof_kwatch_event \<le> length r" "callbacks_this_drain rb < callback_budget rb"
    using Cons.prems(3) by force
  then show ?case
  proof cases
    case small
    then show ?thesis using Cons by (simp add: dispatch_event_def events_of_def)
  next
    case full
    have "snd (dispatch_event r (rb, s)) = (rb\<lparr>dropped_count := dropped_count rb + 1\<rparr>, s)"
      using full Cons.prems by (simp add: dispatch_event_def)
    then show ?thesis
      using Cons.prems full by (simp add: Cons.IH events_of_def Let_def)
  next
    case more
    let ?rb = "rb\<lparr>callbacks_this_drain := callbacks_this_drain rb + 1\<rparr>"
    have step: "snd (dispatch_event r (rb, s)) = (?rb, cb (copy_event r) s)"
      using more Cons.prems by (auto simp: dispatch_event_def)
    have le: "callbacks_this_drain rb + 1 \<le> callback_budget rb" using more(2) by (rule inc_le)
    have suc: "unat (callbacks_this_drain rb + 1) = Suc (unat (callbacks_this_drain rb))"
      using more(2) unat_bound(4)[of "callback_budget rb"] by (simp add: unat_word_ariths word_less_nat_alt)
    have "unat (callbacks_this_drain rb) < unat (callback_budget rb)" using more(2) by (simp add: word_less_nat_alt)
    then obtain k where k: "?left = Suc k" by (metis Suc_diff_Suc)
    then have k': "unat (callback_budget rb) - unat (callbacks_this_drain rb + 1) = k" using suc by simp
    show ?thesis
      using Cons.prems more step le k k' by (simp add: Cons.IH events_of_def Let_def ac_simps)
  qed
qed (simp add: events_of_def Let_def)

lemma drain_unlimited:
  assumes "rb_cb rb = Some cb" "callback_budget rb = 0"
  shows "fold (\<lambda>r st. snd (dispatch_event r st)) recs (rb, s) =
    (rb\<lparr>callbacks_this_drain := callbacks_this_drain rb + of_nat (length (events_of recs))\<rparr>, fold cb (events_of recs) s)"
  using assms
proof (induction recs arbitrary: rb s)
  case (Cons r recs)
  then show ?case by (auto simp: dispatch_event_def events_of_def Let_def)
qed (simp add: events_of_def)

text \<open>One call of \<open>consume\<close>.\<close>

lemma consume_spec:
  assumes "hands_over ring_consume" "rb_open rb" "rb_cb rb = Some cb"
    and "n = (if budget = 0 then length (events_of recs) else min (unat budget) (length (events_of recs)))"
  shows "\<exists>d. consume ring_consume budget recs (rb, s) =
    (rb\<lparr>dropped_count := dropped_count rb + of_nat (length (events_of recs) - n), callback_budget := 0,
        callbacks_this_drain := d\<rparr>, fold cb (take n (events_of recs)) s)"
proof -
  let ?rb = "rb\<lparr>callback_budget := budget, callbacks_this_drain := 0\<rparr>"
  let ?run = "ring_consume dispatch_event recs (?rb, s)"
  have run: "0 \<le> fst ?run" "snd ?run = fold (\<lambda>r st. snd (dispatch_event r st)) recs (?rb, s)"
    using assms(1) dispatch_nonneg by (auto simp: hands_over_def)
  have res: "consume ring_consume budget recs (rb, s) = ((fst (snd ?run))\<lparr>callback_budget := 0\<rparr>, snd (snd ?run))"
    using assms(2) run(1) by (simp add: consume_def case_prod_beta Let_def)
  show ?thesis
  proof (cases "budget = 0")
    case True
    then show ?thesis using res run(2) assms(3,4) by (cases rb) (auto simp: drain_unlimited)
  next
    case False
    then have "0 < budget" by (simp add: word_gt_0)
    then have "snd ?run = (?rb\<lparr>dropped_count := dropped_count rb + of_nat (length (events_of recs) - unat budget),
        callbacks_this_drain := of_nat (min (unat budget) (length (events_of recs)))\<rparr>,
        fold cb (take (unat budget) (events_of recs)) s)"
      using run(2) drain_budget[of ?rb cb recs s] assms(3) by (simp add: Let_def)
    then show ?thesis using res assms(4) False by (cases rb) (auto simp: min_def)
  qed
qed

text \<open>The timer is armed with a valid, non-zero interval of one period of the requested frequency.\<close>

lemma tick_armed:
  assumes "0 < hz" "hz \<le> 1000000000" "tick_init fd settime hz t = (Ok (), t', Some (sec, nsec), cl)"
  shows "0 \<le> sec" "0 \<le> nsec" "nsec < 1000000000" "0 < sec * 1000000000 + nsec"
    "(sec * 1000000000 + nsec) * hz \<le> 1000000000" "1000000000 < (sec * 1000000000 + nsec + 1) * hz"
proof -
  define p where "p = (1000000000 :: int) div hz"
  have its: "sec = p div 1000000000" "nsec = p mod 1000000000"
    using assms(1,3) by (auto simp: tick_init_def p_def Let_def split: if_splits)
  have p: "0 < p" using assms(1,2) by (simp add: p_def pos_imp_zdiv_pos_iff)
  have total: "sec * 1000000000 + nsec = p" using its by simp
  define m where "m = (1000000000 :: int) mod hz"
  have m: "0 \<le> m" "m < hz" using assms(1) by (simp_all add: m_def)
  have eq: "p * hz + m = 1000000000" unfolding p_def m_def by (rule div_mult_mod_eq)
  have "p * hz \<le> 1000000000" "1000000000 < (p + 1) * hz"
    using m eq by (simp_all add: algebra_simps)
  with its p total show "0 \<le> sec" "0 \<le> nsec" "nsec < 1000000000" "0 < sec * 1000000000 + nsec"
    "(sec * 1000000000 + nsec) * hz \<le> 1000000000" "1000000000 < (sec * 1000000000 + nsec + 1) * hz"
    by (simp_all add: pos_imp_zdiv_nonneg_iff)
qed

section \<open>Properties\<close>

text \<open>The modes \<open>attach\<close> tries for a requested mode, in order.\<close>

definition modes_tried :: "string \<Rightarrow> (u32 \<times> string) list" where
  "modes_tried md =
     (if md = ''drv'' then [(XDP_FLAGS_DRV_MODE, ''drv'')]
      else if md = ''skb'' then [(XDP_FLAGS_SKB_MODE, ''skb'')]
      else if md = ''hw'' then [(XDP_FLAGS_HW_MODE, ''hw'')]
      else [(XDP_FLAGS_DRV_MODE, ''drv''), (XDP_FLAGS_SKB_MODE, ''skb''), (0, ''generic'')])"

text \<open>
  Property C23. No descriptor is leaked or closed twice: whatever sequence of acquisitions,
  moves, move assignments and destructions a program runs on a pool of \<open>UniqueFd\<close> objects, and likewise
  of \<open>XdpAttach\<close> objects, the descriptors still owned together with the closed ones are, counted with
  multiplicity, those owned at first together with those the kernel handed out meanwhile.
\<close>

theorem fd_conserved:
  "(let (us', closed) = own_run ufd_ops xs (us, []) in
      mset (concat (map ufd_destroy us')) + mset closed =
      mset (concat (map ufd_destroy us)) + mset (handed_out ufd_ops close_if_open xs (us, []))) \<and>
   (let (as', closed) = own_run xdp_ops ys (as, []) in
      mset (concat (map xdp_destroy as')) + mset closed =
      mset (concat (map xdp_destroy as)) + mset (handed_out xdp_ops attach_got ys (as, [])))"
  using ufd.run_conserves[of xs "(us, [])"] xdp.run_conserves[of ys "(as, [])"]
  by (simp add: ufd.held_def xdp.held_def case_prod_beta Let_def)

text \<open>
  Property C24. With a valid program, \<open>attach\<close> ends the previous attachment and takes the
  first mode the kernel accepts among those tried for the request: only the named mode for \<open>drv\<close>,
  \<open>skb\<close> and \<open>hw\<close>, and driver, socket-buffer and unspecified mode, in this order, for any other
  request. When the kernel accepts none, the error of the last attempt is reported and no descriptor is
  held.
\<close>

theorem attach_first_mode:
  assumes "0 \<le> prog_fd"
  shows "attach strerror prog_fd link_create md a =
    (case find (\<lambda>m. 0 \<le> link_create (fst m)) (modes_tried md) of
       Some m \<Rightarrow> ((Ok (snd m), 0), \<lparr>if_index = if_index a, link_fd = link_create (fst m)\<rparr>, close_if_open (link_fd a))
     | None \<Rightarrow> (let err = - link_create (fst (last (modes_tried md))) in
         ((Err (''Failed to attach XDP in mode='' @ md @ '': '' @ strerror err), err),
          \<lparr>if_index = if_index a, link_fd = min (link_fd a) (-1)\<rparr>, close_if_open (link_fd a))))"
proof -
  have det: "xdp_detach a = (\<lparr>if_index = if_index a, link_fd = min (link_fd a) (-1)\<rparr>, close_if_open (link_fd a))"
    by (cases a) (auto simp: xdp_detach_def close_if_open_def is_open_fd_def)
  show ?thesis
    using assms by (auto simp: attach_def det try_modes_def try_mode_def modes_tried_def Let_def)
qed

theorem attach_first_mode_witness:
  "attach (\<lambda>_. ''x'') 3 (\<lambda>f. if f = XDP_FLAGS_DRV_MODE then -95 else 7) ''auto'' (XdpAttach 2) =
     ((Ok ''skb'', 0), \<lparr>if_index = 2, link_fd = 7\<rparr>, [])"
  using attach_first_mode[of 3 "\<lambda>_. ''x''" "\<lambda>f. if f = XDP_FLAGS_DRV_MODE then -95 else 7" "''auto''" "XdpAttach 2"]
  by (simp add: modes_tried_def XdpAttach_def close_if_open_def is_open_fd_def XDP_FLAGS_DRV_MODE_def XDP_FLAGS_SKB_MODE_def)

text \<open>
  Property C25. A call of \<open>consume\<close> hands exactly the first \<open>budget\<close> pending events to the
  callback, in order (all of them for the budget 0), skips records that are too short, and adds the number
  of the remaining events to \<open>dropped_count\<close>: every event is either delivered once or counted.
\<close>

theorem ringbuf_budget:
  assumes "hands_over ring_consume" "rb_open rb" "rb_cb rb = Some cb"
    and "n = (if budget = 0 then length (events_of recs) else min (unat budget) (length (events_of recs)))"
    and "consume ring_consume budget recs (rb, s) = (rb', s')"
  shows "s' = fold cb (take n (events_of recs)) s \<and>
    dropped_count rb' = dropped_count rb + of_nat (length (events_of recs) - n) \<and>
    error_count rb' = error_count rb \<and> callback_budget rb' = 0"
  using consume_spec[OF assms(1-4), of s] assms(5) by auto

text \<open>A reader that hands every record over, and two events drained with a budget of one.\<close>

definition hand_all :: "'c ring_consume" where
  "hand_all cb recs st = (0, fold (\<lambda>r s. snd (cb r s)) recs st)"

lemma hands_over_all: "hands_over hand_all"
  by (simp add: hands_over_def hand_all_def)

theorem ringbuf_budget_witness:
  "snd (consume hand_all 1 [replicate 32 1, [], replicate 32 2] (snd (ringbuf_init True (#) RingBuf), [])) =
     [copy_event (replicate 32 1)]"
proof -
  let ?rb = "snd (ringbuf_init True (#) RingBuf)" and ?recs = "[replicate 32 (1 :: u8), [], replicate 32 2]"
  obtain rb' s' where c: "consume hand_all 1 ?recs (?rb, []) = (rb', s')"
    by (cases "consume hand_all 1 ?recs (?rb, [])")
  have "events_of ?recs = [copy_event (replicate 32 1), copy_event (replicate 32 2)]"
    by (simp add: events_of_def sizeof_kwatch_event_def)
  with ringbuf_budget[OF hands_over_all _ _ refl c, of "(#)"] c show ?thesis
    by (simp add: ringbuf_init_def RingBuf_def)
qed

end
