(* ===== verification/KW_Detach.thy ===== *)
theory KW_Detach
  imports KW_Pin KW_Runtime
begin

text \<open>
  \<open>src/cli/commands/detach.cpp\<close>: stopping the owner of an interface and removing what it left behind. The
  process table changes while the command runs, so \<open>/proc\<close> is read through a function of the number of
  observations made so far, and the same number tells what \<open>kill\<close> answers. The state is that number and
  the list of the signals delivered; \<open>usleep\<close> lets time pass between two observations. What the owner removes
  of its files while it exits is not modelled: the cleanup meets the files of the start. The calls of
  \<open>detach_xdp\<close>, one per mode, are answered by an argument.
\<close>

section \<open>The command\<close>

definition is_ignorable_detach_error :: "int \<Rightarrow> bool" where
  "is_ignorable_detach_error err \<longleftrightarrow>
     err = EINVAL \<or> err = ENOENT \<or> err = ENODEV \<or> err = EOPNOTSUPP \<or> err = ENOLINK"

text \<open>\<open>w_kill t pid sig\<close> is the \<open>errno\<close> of \<open>kill\<close>, 0 when the signal is sent.\<close>

record world =
  w_proc :: "nat \<Rightarrow> procfs"
  w_kill :: "nat \<Rightarrow> int \<Rightarrow> int \<Rightarrow> int"

definition step_us :: nat where "step_us = 100000"

function wait_loop :: "world \<Rightarrow> owner_state \<Rightarrow> nat \<Rightarrow> nat \<Rightarrow> nat \<Rightarrow> bool \<times> nat" where
  "wait_loop w ow timeout_us waited t =
     (if waited < timeout_us
      then (if \<not> is_owner_alive (w_proc w t) ow then (True, Suc t)
            else wait_loop w ow timeout_us (waited + step_us) (Suc t))
      else (\<not> is_owner_alive (w_proc w t) ow, Suc t))"
  by pat_completeness auto
termination by (relation "measure (\<lambda>(w, ow, timeout_us, waited, t). timeout_us - waited)") (auto simp: step_us_def)

declare wait_loop.simps [simp del]

definition wait_for_owner_exit :: "world \<Rightarrow> owner_state \<Rightarrow> nat \<Rightarrow> nat \<Rightarrow> bool \<times> nat" where
  "wait_for_owner_exit w ow timeout_us t = wait_loop w ow timeout_us 0 t"

text \<open>\<open>stop_owner_process\<close>: its result, the signals sent and the number of observations made.\<close>

definition stop_owner_process ::
    "world \<Rightarrow> owner_state \<Rightarrow> nat \<Rightarrow> bool result \<times> (int \<times> int) list \<times> nat" where
  "stop_owner_process w ow t =
     (if \<not> is_owner_alive (w_proc w t) ow then (Ok False, [], Suc t)
      else let t = Suc t; e = w_kill w t (owner_pid ow) SIGTERM in
      if e \<noteq> 0
      then (if e = ESRCH then Ok False
            else if e = EPERM \<or> e = EACCES then Err ''permission'' else Err ''signal failed'', [], t)
      else let sent = [(owner_pid ow, SIGTERM)]; (gone, t) = wait_for_owner_exit w ow 2000000 t in
      if gone then (Ok True, sent, t)
      else let e = w_kill w t (owner_pid ow) SIGKILL in
      if e \<noteq> 0 \<and> e \<noteq> ESRCH
      then (if e = EPERM \<or> e = EACCES then Err ''permission'' else Err ''signal failed'', sent, t)
      else let sent = (if e = 0 then sent @ [(owner_pid ow, SIGKILL)] else sent);
               (gone, t) = wait_for_owner_exit w ow 1000000 t in
      (if \<not> gone then Err ''owner still alive'' else Ok True, sent, t))"

text \<open>The loop over the modes: an early exit status, or \<open>detached\<close> and \<open>first_error\<close>.\<close>

fun detach_loop :: "(u32 \<Rightarrow> int) \<Rightarrow> u32 list \<Rightarrow> bool \<times> int \<Rightarrow> int + bool \<times> int" where
  "detach_loop detach_xdp [] st = Inr st"
| "detach_loop detach_xdp (flag # flags) st =
     (let (detached, first_error) = st; ret = detach_xdp flag in
      if ret = 0 then detach_loop detach_xdp flags (True, first_error)
      else let err = - ret in
      if err = EPERM \<or> err = EACCES then Inl 77
      else if \<not> is_ignorable_detach_error err \<and> first_error = 0
      then detach_loop detach_xdp flags (detached, err)
      else detach_loop detach_xdp flags (detached, first_error))"

definition detach_flags :: "u32 list" where
  "detach_flags = [XDP_FLAGS_HW_MODE, XDP_FLAGS_DRV_MODE, XDP_FLAGS_SKB_MODE, 0]"

definition cmd_detach ::
    "(string \<Rightarrow> u32) \<Rightarrow> world \<Rightarrow> (int \<Rightarrow> u32 \<Rightarrow> int) \<Rightarrow> string list \<Rightarrow> host \<Rightarrow> int \<times> (int \<times> int) list \<times> host" where
  "cmd_detach if_nametoindex w detach_xdp args h =
     (if length args \<noteq> 1 then (64, [], h)
      else let if_name = args ! 0; raw_if_index = if_nametoindex if_name in
      if raw_if_index = 0 then (65, [], h)
      else let if_index = sint raw_if_index;
               (stop_res, sent, t) =
                 (case read_owner_state h (owner_pid_path_for_iface if_name) of
                    Ok ow \<Rightarrow> stop_owner_process w ow 0
                  | Err _ \<Rightarrow> (Ok False, [], 0)) in
      case stop_res of
        Err m \<Rightarrow> (if m = ''permission'' then 77 else 69, sent, h)
      | Ok stopped_owner \<Rightarrow>
          (case cleanup_stale_state (w_proc w t) if_name h of
             (Err _, h) \<Rightarrow> (69, sent, h)
           | (Ok _, h) \<Rightarrow>
               (case detach_loop (detach_xdp if_index) detach_flags (False, 0) of
                  Inl code \<Rightarrow> (code, sent, h)
                | Inr (detached, first_error) \<Rightarrow> (if first_error \<noteq> 0 then 69 else 0, sent, h))))"

section \<open>Waiting and stopping\<close>

text \<open>
  A wait that gives up has seen the owner alive at every observation; a wait that succeeds ends with an
  observation of its absence. The number of observations is bounded.
\<close>

lemma wait_loop_spec:
  "wait_loop w ow timeout_us waited t = (gone, t') \<Longrightarrow> waited < timeout_us + step_us \<Longrightarrow>
     \<exists>n. t' = Suc (t + n) \<and> waited + n * step_us < timeout_us + step_us \<and>
       (\<not> gone \<longrightarrow> timeout_us \<le> waited + n * step_us) \<and>
       gone = (\<not> is_owner_alive (w_proc w (t + n)) ow) \<and> (\<forall>k < n. is_owner_alive (w_proc w (t + k)) ow)"
proof (induction w ow timeout_us waited t rule: wait_loop.induct)
  case (1 w ow timeout_us waited t)
  show ?case
  proof (cases "waited < timeout_us \<and> is_owner_alive (w_proc w t) ow")
    case True
    then have run: "wait_loop w ow timeout_us (waited + step_us) (Suc t) = (gone, t')"
      using "1.prems" by (simp add: wait_loop.simps[of w ow timeout_us waited t])
    obtain n where n: "t' = Suc (Suc t + n)" "waited + step_us + n * step_us < timeout_us + step_us"
      "\<not> gone \<longrightarrow> timeout_us \<le> waited + step_us + n * step_us"
      "gone = (\<not> is_owner_alive (w_proc w (Suc t + n)) ow)" "\<forall>k < n. is_owner_alive (w_proc w (Suc t + k)) ow"
      using "1.IH"[OF _ _ run] True by auto
    have "is_owner_alive (w_proc w (t + k)) ow" if "k < Suc n" for k
      using that True n(5) by (cases k) simp_all
    with n show ?thesis by (intro exI[of _ "Suc n"]) (simp add: ac_simps)
  next
    case False
    then have "t' = Suc t" "gone = (\<not> is_owner_alive (w_proc w t) ow)" "\<not> gone \<Longrightarrow> timeout_us \<le> waited"
      using "1.prems" by (auto simp: wait_loop.simps[of w ow timeout_us waited t] split: if_splits)
    with "1.prems" show ?thesis by (intro exI[of _ 0]) simp
  qed
qed

text \<open>The waits of \<open>stop_owner_process\<close>: 2 seconds are 20 sleeps, 1 second is 10.\<close>

lemma wait_gives_up:
  assumes "wait_for_owner_exit w ow (m * step_us) t = (False, t')"
  shows "t' = Suc (t + m)" "k \<le> m \<Longrightarrow> is_owner_alive (w_proc w (t + k)) ow"
proof -
  obtain n where n: "t' = Suc (t + n)" "n * step_us < m * step_us + step_us" "m * step_us \<le> n * step_us"
    "is_owner_alive (w_proc w (t + n)) ow" "\<forall>k < n. is_owner_alive (w_proc w (t + k)) ow"
    using wait_loop_spec[of w ow "m * step_us" 0 t False t'] assms by (auto simp: wait_for_owner_exit_def step_us_def)
  from n(2,3) have "n = m" by (simp add: step_us_def)
  with n show "t' = Suc (t + m)" "k \<le> m \<Longrightarrow> is_owner_alive (w_proc w (t + k)) ow"
    by (auto simp: le_less)
qed

lemma wait_ends:
  assumes "wait_for_owner_exit w ow (m * step_us) t = (gone, t')"
  shows "t < t'" "t' \<le> Suc (t + m)" "gone \<Longrightarrow> \<not> is_owner_alive (w_proc w (t' - 1)) ow"
  using wait_loop_spec[of w ow "m * step_us" 0 t gone t'] assms by (auto simp: wait_for_owner_exit_def step_us_def)

text \<open>Which signals can be sent, and when.\<close>

lemma stop_signals:
  assumes "stop_owner_process w ow t = (r, sent, t')"
  shows "sent = [] \<or> sent = [(owner_pid ow, SIGTERM)] \<or> sent = [(owner_pid ow, SIGTERM), (owner_pid ow, SIGKILL)]"
    and "sent \<noteq> [] \<Longrightarrow> is_owner_alive (w_proc w t) ow"
    and "length sent = 2 \<Longrightarrow> k \<le> 21 \<Longrightarrow> is_owner_alive (w_proc w (t + k)) ow"
    and "t' \<le> t + 33"
proof -
  obtain g1 t1 where w1: "wait_for_owner_exit w ow 2000000 (Suc t) = (g1, t1)"
    by (cases "wait_for_owner_exit w ow 2000000 (Suc t)")
  obtain g2 t2 where w2: "wait_for_owner_exit w ow 1000000 t1 = (g2, t2)"
    by (cases "wait_for_owner_exit w ow 1000000 t1")
  show "sent = [] \<or> sent = [(owner_pid ow, SIGTERM)] \<or> sent = [(owner_pid ow, SIGTERM), (owner_pid ow, SIGKILL)]"
    "sent \<noteq> [] \<Longrightarrow> is_owner_alive (w_proc w t) ow"
    using assms w1 w2 by (auto simp: stop_owner_process_def Let_def split: if_splits)
  have "t1 \<le> t + 22" "t2 \<le> t1 + 11"
    using wait_ends(2)[of w ow 20 "Suc t" g1 t1] wait_ends(2)[of w ow 10 t1 g2 t2] w1 w2 by (simp_all add: step_us_def)
  then show "t' \<le> t + 33"
    using assms w1 w2 by (auto simp: stop_owner_process_def Let_def split: if_splits)
  show "is_owner_alive (w_proc w (t + k)) ow" if "length sent = 2" "k \<le> 21"
  proof -
    have "\<not> g1" "is_owner_alive (w_proc w t) ow"
      using assms w1 w2 that(1) by (auto simp: stop_owner_process_def Let_def split: if_splits)
    with w1 wait_gives_up(2)[of w ow 20 "Suc t" t1 "k - 1"] that(2) show ?thesis
      by (cases k) (simp_all add: step_us_def)
  qed
qed

text \<open>The loop over the modes.\<close>

lemma detach_loop_code: "detach_loop f flags st = Inl c \<Longrightarrow> c = 77"
  by (induction flags arbitrary: st) (auto simp: Let_def split: if_splits)

lemma detach_loop_error:
  "detach_loop f flags (d, e) = Inr (d', 0) \<Longrightarrow>
     \<forall>fl \<in> set flags. f fl = 0 \<or> is_ignorable_detach_error (- f fl)"
proof (induction flags arbitrary: d e)
  case (Cons fl flags)
  have keep: "e = 0" if "detach_loop f fls (d1, e) = Inr (d', 0)" for d1 fls e
    using that by (induction fls arbitrary: d1 e)
      (auto simp: Let_def is_ignorable_detach_error_def EINVAL_def ENOENT_def ENODEV_def EOPNOTSUPP_def ENOLINK_def split: if_splits)
  show ?case
    using Cons by (auto simp: Let_def split: if_splits dest: keep)
qed simp

text \<open>A run of the command that passes its first checks, split at the stop and the cleanup.\<close>

lemma detach_cases:
  assumes "cmd_detach if_nametoindex w detach_xdp args h = (code, sent, h')"
  obtains (usage) "code = 64 \<or> code = 65" "sent = []" "h' = h"
  | (owner) n r t where "args = [n]"
      "(r, sent, t) = (case read_owner_state h (owner_pid_path_for_iface n) of
         Ok ow \<Rightarrow> stop_owner_process w ow 0 | Err _ \<Rightarrow> (Ok False, [], 0))"
      "\<not> is_ok r \<and> h' = h \<and> (code = 77 \<or> code = 69) \<or>
       is_ok r \<and> snd (cleanup_stale_state (w_proc w t) n h) = h' \<and>
         (if is_ok (fst (cleanup_stale_state (w_proc w t) n h))
          then (case detach_loop (detach_xdp (sint (if_nametoindex n))) detach_flags (False, 0) of
                  Inl c \<Rightarrow> code = c | Inr (d, e) \<Rightarrow> code = (if e \<noteq> 0 then 69 else 0))
          else code = 69)"
proof (cases "length args \<noteq> 1 \<or> if_nametoindex (args ! 0) = 0")
  case True
  then show ?thesis using assms by (intro usage) (auto simp: cmd_detach_def Let_def split: if_splits)
next
  case False
  then obtain n where n: "args = [n]" by (cases args) auto
  obtain r s t where st: "(case read_owner_state h (owner_pid_path_for_iface n) of
      Ok ow \<Rightarrow> stop_owner_process w ow 0 | Err _ \<Rightarrow> (Ok False, [], 0)) = (r, s, t)" by (rule prod_cases3)
  obtain cr h1 where cl: "cleanup_stale_state (w_proc w t) n h = (cr, h1)" by (rule prod.exhaust)
  show ?thesis
  proof (rule owner[OF n])
    show "(r, sent, t) = (case read_owner_state h (owner_pid_path_for_iface n) of
         Ok ow \<Rightarrow> stop_owner_process w ow 0 | Err _ \<Rightarrow> (Ok False, [], 0))"
      using assms False n st cl
      by (cases r; cases cr) (auto simp: cmd_detach_def Let_def split: sum.splits)
    show "\<not> is_ok r \<and> h' = h \<and> (code = 77 \<or> code = 69) \<or>
       is_ok r \<and> snd (cleanup_stale_state (w_proc w t) n h) = h' \<and>
         (if is_ok (fst (cleanup_stale_state (w_proc w t) n h))
          then (case detach_loop (detach_xdp (sint (if_nametoindex n))) detach_flags (False, 0) of
                  Inl c \<Rightarrow> code = c | Inr (d, e) \<Rightarrow> code = (if e \<noteq> 0 then 69 else 0))
          else code = 69)"
      using assms False n st cl
      by (cases r; cases cr) (auto simp: cmd_detach_def Let_def split: sum.splits if_splits)
  qed
qed

section \<open>Properties\<close>

text \<open>
  Property C16. \<open>kwatch detach\<close> signals only the process recorded as the owner of the
  interface, and only if the process with that number and start time is alive; the signal is \<open>SIGTERM\<close>,
  followed by \<open>SIGKILL\<close> only if the owner was seen alive in all 21 checks of the following two seconds.
\<close>

theorem detach_signals:
  assumes "cmd_detach if_nametoindex w detach_xdp args h = (code, sent, h')" "sent \<noteq> []"
  shows "\<exists>ow. read_owner_state h (owner_pid_path_for_iface (args ! 0)) = Ok ow \<and> is_owner_alive (w_proc w 0) ow \<and>
    (sent = [(owner_pid ow, SIGTERM)] \<or>
     sent = [(owner_pid ow, SIGTERM), (owner_pid ow, SIGKILL)] \<and> (\<forall>k \<le> 21. is_owner_alive (w_proc w k) ow))"
  using assms(1)
proof (cases rule: detach_cases)
  case (owner n r t)
  obtain ow where ow: "read_owner_state h (owner_pid_path_for_iface n) = Ok ow"
    using owner(2) assms(2) by (cases "read_owner_state h (owner_pid_path_for_iface n)") auto
  then have run: "stop_owner_process w ow 0 = (r, sent, t)" using owner(2) by simp
  from stop_signals(1)[OF run] assms(2) stop_signals(2)[OF run] stop_signals(3)[OF run] ow owner(1)
  show ?thesis by (auto simp: numeral_2_eq_2)
qed (use assms(2) in simp)

definition stubborn_world :: world where
  "stubborn_world = \<lparr>w_proc = (\<lambda>t. if t \<le> 21 then demo_proc else (\<lambda>_. None)), w_kill = (\<lambda>_ _ _. 0)\<rparr>"

lemma stubborn_alive: "is_owner_alive (w_proc stubborn_world t) \<lparr>owner_pid = 42, start_time_ticks = 77\<rparr> \<longleftrightarrow> t \<le> 21"
  by (auto simp: stubborn_world_def is_owner_alive_def demo_read) (simp add: read_proc_stat_def)

definition detach_host :: host where
  "detach_host = \<lparr>h_files = [(''/run/kwatch/lo/owner.pid'', owner_text \<lparr>owner_pid = 42, start_time_ticks = 77\<rparr>)],
     h_dirs = [''/run/kwatch/lo''], h_fault = (\<lambda>_ _. None)\<rparr>"

lemma detach_host_owner:
  "read_owner_state detach_host ''/run/kwatch/lo/owner.pid'' = Ok \<lparr>owner_pid = 42, start_time_ticks = 77\<rparr>"
  by (rule read_written_owner) (simp_all add: owner_valid_def detach_host_def)

lemma detach_host_wf: "host_wf detach_host"
  by (simp add: host_wf_def detach_host_def parent_dir_def)

lemma stubborn_stop:
  "stop_owner_process stubborn_world \<lparr>owner_pid = 42, start_time_ticks = 77\<rparr> 0 =
     (Ok True, [(42, SIGTERM), (42, SIGKILL)], 23)"
proof -
  let ?ow = "\<lparr>owner_pid = 42, start_time_ticks = 77\<rparr>"
  have kill: "w_kill stubborn_world t p g = 0" for t p g by (simp add: stubborn_world_def)
  have "wait_for_owner_exit stubborn_world ?ow 2000000 1 = (False, 22)"
    by (simp add: wait_for_owner_exit_def wait_loop.simps step_us_def stubborn_alive)
  moreover have "wait_for_owner_exit stubborn_world ?ow 1000000 22 = (True, 23)"
    by (simp add: wait_for_owner_exit_def wait_loop.simps step_us_def stubborn_alive)
  ultimately show ?thesis
    by (simp add: stop_owner_process_def stubborn_alive kill)
qed

lemma stubborn_cleanup:
  "is_ok (fst (cleanup_stale_state (w_proc stubborn_world 23) ''lo'' detach_host))"
  using stubborn_alive[of 23] detach_host_owner
  by (simp add: cleanup_stale_state_def Let_def)
    (simp add: detach_host_def sys_unlink_def sys_rmdir_def remove_dir_entries_def
        owner_pid_path_for_iface_def owner_state_dir_for_iface_def pin_path_for_iface_def dir_entries_def
        parent_dir_def ENOENT_def AList.delete_eq)

lemma stubborn_detach:
  "\<exists>h'. cmd_detach (\<lambda>_. 1) stubborn_world (\<lambda>_ _. 0) [''lo''] detach_host = (0, [(42, SIGTERM), (42, SIGKILL)], h')"
proof -
  obtain b h' where cl: "cleanup_stale_state (w_proc stubborn_world 23) ''lo'' detach_host = (Ok b, h')"
    using stubborn_cleanup by (cases "cleanup_stale_state (w_proc stubborn_world 23) ''lo'' detach_host"; cases "fst (cleanup_stale_state (w_proc stubborn_world 23) ''lo'' detach_host)") auto
  have "owner_pid_path_for_iface ''lo'' = ''/run/kwatch/lo/owner.pid''"
    by (simp add: owner_pid_path_for_iface_def owner_state_dir_for_iface_def)
  then show ?thesis
    using detach_host_owner stubborn_stop cl by (simp add: cmd_detach_def detach_flags_def Let_def)
qed

theorem detach_signals_witness:
  "\<exists>h' ow. cmd_detach (\<lambda>_. 1) stubborn_world (\<lambda>_ _. 0) [''lo''] detach_host = (0, [(42, SIGTERM), (42, SIGKILL)], h') \<and>
     owner_pid ow = 42 \<and> (\<forall>k \<le> 21. is_owner_alive (w_proc stubborn_world k) ow)"
proof -
  obtain h' where run: "cmd_detach (\<lambda>_. 1) stubborn_world (\<lambda>_ _. 0) [''lo''] detach_host = (0, [(42, SIGTERM), (42, SIGKILL)], h')"
    using stubborn_detach by blast
  with detach_signals[OF run] show ?thesis by auto
qed



end
