(* ===== verification/KW_App.thy ===== *)
theory KW_App
  imports KW_Demo KW_Maps KW_Pps
begin

text \<open>
  The terminal interface, \<open>src/tui/app.cpp\<close> and \<open>src/tui/app.h\<close>: the texts it shows, its reaction to
  keys and the screen it draws. A key is the code \<open>getch\<close> returns, an answer to a prompt what
  \<open>getnstr\<close> read (\<open>None\<close> for \<open>ERR\<close>). Drawing is the list of the ncurses calls made, with the formatted
  text of each \<open>mvprintw\<close>. The references to the state of the caller are the record \<open>shown\<close>. The thread
  of a demo is recorded by its name and configuration in the list \<open>launched\<close>.
\<close>

section \<open>Data\<close>

datatype View = Dashboard | Threats | Firewall | Demos

record threat_row =
  tr_ip :: u32
  tr_syn_count :: u32
  tr_ack_count :: u32
  tr_ttl :: u8
  tr_flagged :: bool

record firewall_row =
  fr_prefixlen :: u32
  fr_ip :: u32
  fr_age_s :: u64
  fr_drop_count :: u64

record protocol_breakdown =
  pb_tcp :: u64
  pb_udp :: u64
  pb_icmp :: u64
  pb_other :: u64
  pb_dropped :: u64

record app =
  current_view :: View
  firewall_selected_index :: int
  running :: bool
  iface :: string
  mode :: string
  color_enabled :: bool
  demo_cfg :: demo_config
  launched :: "(string \<times> demo_config) list"

section \<open>Texts\<close>

definition pad_left :: "char \<Rightarrow> nat \<Rightarrow> string \<Rightarrow> string" where
  "pad_left c n s = replicate (n - length s) c @ s"

definition pad_right :: "nat \<Rightarrow> string \<Rightarrow> string" where
  "pad_right n s = s @ replicate (n - length s) CHR '' ''"

definition tui_format_tcp_flags :: "u8 \<Rightarrow> string" where
  "tui_format_tcp_flags flags =
     (let out = [];
          out = (if flags AND 0x02 \<noteq> 0 then out @ ''S'' else out);
          out = (if flags AND 0x10 \<noteq> 0 then out @ ''A'' else out);
          out = (if flags AND 0x08 \<noteq> 0 then out @ ''P'' else out);
          out = (if flags AND 0x01 \<noteq> 0 then out @ ''F'' else out);
          out = (if flags AND 0x04 \<noteq> 0 then out @ ''R'' else out)
      in if out = [] then ''-'' else out)"

definition get_os_from_ttl :: "u8 \<Rightarrow> string" where
  "get_os_from_ttl t =
     (if t = 64 then ''Linux'' else if t = 128 then ''Windows'' else if t = 255 then ''BSD'' else ''?'')"

text \<open>The elapsed time is not negative.\<close>

definition format_duration :: "nat \<Rightarrow> string" where
  "format_duration tot =
     pad_left CHR ''0'' 2 (dec_of_nat (tot div 3600)) @ '':'' @
     pad_left CHR ''0'' 2 (dec_of_nat (tot div 60 mod 60)) @ '':'' @
     pad_left CHR ''0'' 2 (dec_of_nat (tot mod 60))"

text \<open>
  \<open>static_cast<double>(syn_count) / ack_count\<close> is the quotient rounded to 53 significant bits, a number
  \<open>m / 2 ^ k\<close>; \<open>"%.1f"\<close> rounds this number to tenths. Both roundings are to nearest, ties to even.
\<close>

definition round_half_even :: "nat \<Rightarrow> nat \<Rightarrow> nat" where
  "round_half_even n d =
     (let q = n div d; r = n mod d in
      if 2 * r < d then q else if d < 2 * r then q + 1 else if even q then q else q + 1)"

function scale_bits :: "nat \<Rightarrow> nat \<Rightarrow> nat \<Rightarrow> nat" where
  "scale_bits s a k = (if 0 < s \<and> s * 2 ^ k < 2 ^ 52 * a then scale_bits s a (Suc k) else k)"
  by pat_completeness auto
termination by (relation "measure (\<lambda>(s, a, k). 2 ^ 52 * a - s * 2 ^ k)") (auto intro!: diff_less_mono2)

declare scale_bits.simps [simp del]

definition ratio_tenths :: "nat \<Rightarrow> nat \<Rightarrow> nat" where
  "ratio_tenths s a =
     (let k = scale_bits s a 0; m = round_half_even (s * 2 ^ k) a in round_half_even (10 * m) (2 ^ k))"

definition format_ratio :: "u32 \<Rightarrow> u32 \<Rightarrow> string" where
  "format_ratio syns acks =
     (if acks = 0 then (if syns = 0 then ''0.0'' else ''inf'')
      else let t = ratio_tenths (unat syns) (unat acks) in
        dec_of_nat (t div 10) @ ''.'' @ dec_of_nat (t mod 10))"

definition protocol_total :: "protocol_breakdown \<Rightarrow> u64" where
  "protocol_total b = pb_tcp b + pb_udp b + pb_icmp b + pb_other b"

definition protocol_pct :: "u64 \<Rightarrow> u64 \<Rightarrow> u64" where
  "protocol_pct v tot = (if tot = 0 then 0 else (v * 100) div tot)"

section \<open>Construction and keys\<close>

definition App :: "string \<Rightarrow> string \<Rightarrow> app" where
  "App iface_name attach_mode =
     \<lparr>current_view = Dashboard, firewall_selected_index = 0, running = True, iface = iface_name,
      mode = attach_mode, color_enabled = False,
      demo_cfg = \<lparr>target_ip = ''127.0.0.1'', target_port = 80, rate_pps = 50, duration_s = 5,
        override_safety = False\<rparr>, launched = []\<rparr>"

text \<open>\<open>isatty\<close>, \<open>has_colors\<close> and whether \<open>NO_COLOR\<close> is set.\<close>

definition app_init :: "bool \<Rightarrow> bool \<Rightarrow> bool \<Rightarrow> app \<Rightarrow> app" where
  "app_init tty colors no_color a = a\<lparr>color_enabled := (tty \<and> colors \<and> \<not> no_color)\<rparr>"

text \<open>The destructor stops the loop and joins the thread.\<close>

definition app_destroy :: "app \<Rightarrow> app" where
  "app_destroy a = a\<lparr>running := False\<rparr>"

definition prompt_input :: "string option \<Rightarrow> string" where
  "prompt_input answer = (case answer of None \<Rightarrow> [] | Some s \<Rightarrow> take 255 s)"

definition parse_u32_input :: "string \<Rightarrow> u32 option" where
  "parse_u32_input v =
     (if v = [] then None
      else case stoul v of
        Inl _ \<Rightarrow> None
      | Inr (parsed, pos) \<Rightarrow> (if pos \<noteq> length v \<or> parsed > 4294967295 then None else Some (of_nat parsed)))"

definition parse_u16_input :: "string \<Rightarrow> u16 option" where
  "parse_u16_input v =
     (case parse_u32_input v of None \<Rightarrow> None | Some parsed \<Rightarrow> if parsed > 65535 then None else Some (ucast parsed))"

definition launch_demo :: "string \<Rightarrow> app \<Rightarrow> app" where
  "launch_demo nm a = a\<lparr>launched := launched a @ [(nm, demo_cfg a)]\<rparr>"

text \<open>What the thread runs.\<close>

definition demo_thread :: "demo_env \<Rightarrow> string \<times> demo_config \<Rightarrow> demo_end option" where
  "demo_thread env d =
     (let (nm, cfg) = d in
      if nm = ''syn-flood'' then run_syn_flood env cfg
      else if nm = ''ping-flood'' then run_ping_flood env cfg
      else if nm = ''udp-storm'' then run_udp_storm env cfg
      else Some (Done (Ok ()) []))"

definition KEY_DOWN :: int where "KEY_DOWN = 258"
definition KEY_UP :: int where "KEY_UP = 259"

definition pressed :: "int \<Rightarrow> char \<Rightarrow> char \<Rightarrow> bool" where
  "pressed ch lower upper \<longleftrightarrow> ch = of_char lower \<or> ch = of_char upper"

definition firewall_keys ::
    "lpm_ops \<Rightarrow> firewall_row list \<Rightarrow> int \<Rightarrow> string option \<Rightarrow> app \<Rightarrow> lpm_map \<Rightarrow> app \<times> lpm_map" where
  "firewall_keys ops rows ch answer a m =
     (let i = firewall_selected_index a in
      if ch = KEY_UP \<and> i > 0 then (a\<lparr>firewall_selected_index := i - 1\<rparr>, m)
      else if ch = KEY_DOWN \<and> i + 1 < int (length rows) then (a\<lparr>firewall_selected_index := i + 1\<rparr>, m)
      else if pressed ch CHR ''a'' CHR ''A'' then
        (a, case parse_cidr (prompt_input answer) of
              Ok parsed \<Rightarrow> snd (lpm_update ops (cidr_key parsed) 1 m)
            | Err _ \<Rightarrow> m)
      else if pressed ch CHR ''d'' CHR ''D'' \<and> i \<ge> 0 \<and> i < int (length rows) then
        (let row = rows ! nat i in (a, snd (lpm_delete ops (fr_prefixlen row, fr_ip row) m)))
      else (a, m))"

definition demo_keys :: "int \<Rightarrow> string option \<Rightarrow> app \<Rightarrow> app" where
  "demo_keys ch answer a =
     (let input = prompt_input answer in
      if pressed ch CHR ''t'' CHR ''T'' then
        (if input \<noteq> [] then a\<lparr>demo_cfg := (demo_cfg a)\<lparr>target_ip := input\<rparr>\<rparr> else a)
      else if pressed ch CHR ''o'' CHR ''O'' then
        (case parse_u16_input input of Some port \<Rightarrow> a\<lparr>demo_cfg := (demo_cfg a)\<lparr>target_port := port\<rparr>\<rparr> | None \<Rightarrow> a)
      else if pressed ch CHR ''r'' CHR ''R'' then
        (case parse_u32_input input of Some rate \<Rightarrow> a\<lparr>demo_cfg := (demo_cfg a)\<lparr>rate_pps := rate\<rparr>\<rparr> | None \<Rightarrow> a)
      else if pressed ch CHR ''d'' CHR ''D'' then
        (case parse_u32_input input of Some d \<Rightarrow> a\<lparr>demo_cfg := (demo_cfg a)\<lparr>duration_s := d\<rparr>\<rparr> | None \<Rightarrow> a)
      else if pressed ch CHR ''s'' CHR ''S'' then (launch_demo ''syn-flood'' a)\<lparr>current_view := Threats\<rparr>
      else if pressed ch CHR ''p'' CHR ''P'' then (launch_demo ''ping-flood'' a)\<lparr>current_view := Dashboard\<rparr>
      else if pressed ch CHR ''u'' CHR ''U'' then (launch_demo ''udp-storm'' a)\<lparr>current_view := Dashboard\<rparr>
      else a)"

definition handle_input ::
    "lpm_ops \<Rightarrow> firewall_row list \<Rightarrow> int \<Rightarrow> string option \<Rightarrow> app \<Rightarrow> lpm_map \<Rightarrow> app \<times> lpm_map" where
  "handle_input ops rows ch answer a m =
     (if pressed ch CHR ''q'' CHR ''Q'' then (a\<lparr>running := False\<rparr>, m)
      else if ch = of_char CHR ''1'' then (a\<lparr>current_view := Dashboard\<rparr>, m)
      else if ch = of_char CHR ''2'' then (a\<lparr>current_view := Threats\<rparr>, m)
      else if ch = of_char CHR ''3'' then (a\<lparr>current_view := Firewall\<rparr>, m)
      else if ch = of_char CHR ''4'' then (a\<lparr>current_view := Demos\<rparr>, m)
      else if current_view a = Firewall then firewall_keys ops rows ch answer a m
      else if current_view a = Demos then (demo_keys ch answer a, m)
      else (a, m))"

section \<open>The screen\<close>

datatype attr = HeaderAttr | RedAttr | ReverseAttr
datatype curses = Erase | AttrOn attr | AttrOff attr | Mvprintw int string | Refresh

record shown =
  sh_pps_points :: "u64 list"
  sh_current_pps :: u64
  sh_recent_events :: "kwatch_event list"
  sh_threat_rows :: "threat_row list"
  sh_firewall_rows :: "firewall_row list"
  sh_breakdown :: protocol_breakdown
  sh_error_count :: u64
  sh_drop_count :: u64

definition middot :: string where
  "middot = [CHR '' '', CHR 0xC2, CHR 0xB7, CHR '' '']"

definition rule_line :: string where
  "rule_line = replicate 80 CHR ''-''"

definition header_line :: "app \<Rightarrow> shown \<Rightarrow> nat \<Rightarrow> string" where
  "header_line a sh uptime =
     ''kwatch '' @ c_str (iface a) @ middot @ ''mode='' @ c_str (mode a) @ middot @
     ''pps='' @ to_string (sh_current_pps sh) @ middot @ ''uptime='' @ format_duration uptime @ middot @
     ''events_dropped='' @ to_string (sh_drop_count sh) @ middot @
     ''rb_errs='' @ to_string (sh_error_count sh) @ middot @
     ''[1]Dash [2]Threats [3]Firewall [4]Demo [q]Quit''"

definition count_line :: "string \<Rightarrow> u64 \<Rightarrow> u64 \<Rightarrow> string" where
  "count_line nm v tot =
     nm @ pad_left CHR '' '' 10 (to_string v) @ '' ('' @ pad_left CHR '' '' 2 (to_string (protocol_pct v tot)) @ ''%)''"

definition event_line :: "kwatch_event \<Rightarrow> string" where
  "event_line e =
     (if protocol e = 1
      then ipv4_format (src_ip e) @ '' -> '' @ ipv4_format (dst_ip e) @ '' type='' @ to_string (icmp_type e) @
           '' code='' @ to_string (icmp_code e) @ '' ttl='' @ to_string (ttl e)
      else ipv4_format (src_ip e) @ '':'' @ to_string (sport e) @ '' -> '' @ ipv4_format (dst_ip e) @ '':'' @
           to_string (dport e) @ '' flags='' @ tui_format_tcp_flags (tcp_flags e) @ '' ttl='' @ to_string (ttl e))"

definition render_dashboard :: "shown \<Rightarrow> int \<Rightarrow> int \<Rightarrow> curses list" where
  "render_dashboard sh max_y max_x =
     (let b = sh_breakdown sh; tot = protocol_total b; es = sh_recent_events sh;
          visible = (if max_y > 16 then nat (max_y - 16) else 0);
          n = min (length es) (min 20 visible)
      in [Mvprintw 2 ''Traffic (PPS)'', Mvprintw 3 (render_sparkline (sh_pps_points sh) (max_x - 2)),
          Mvprintw 5 ''Protocol Breakdown'', Mvprintw 6 (replicate 33 CHR ''-''),
          Mvprintw 7 (count_line ''TCP   '' (pb_tcp b) tot), Mvprintw 8 (count_line ''UDP   '' (pb_udp b) tot),
          Mvprintw 9 (count_line ''ICMP  '' (pb_icmp b) tot), Mvprintw 10 (count_line ''Other '' (pb_other b) tot),
          Mvprintw 11 (''Drops '' @ pad_left CHR '' '' 10 (to_string (pb_dropped b))),
          Mvprintw 13 ''Recent Events'', Mvprintw 14 rule_line] @
         map (\<lambda>i. Mvprintw (15 + int i) (event_line (es ! (length es - 1 - i)))) [0..<n])"

definition threat_line :: "threat_row \<Rightarrow> string" where
  "threat_line row =
     pad_right 16 (ipv4_format (tr_ip row)) @ '' '' @ pad_right 8 (to_string (tr_syn_count row)) @ '' '' @
     pad_right 8 (to_string (tr_ack_count row)) @ '' '' @
     pad_right 8 (format_ratio (tr_syn_count row) (tr_ack_count row)) @ '' '' @
     pad_right 16 (get_os_from_ttl (tr_ttl row)) @ '' '' @
     pad_right 16 (if tr_flagged row then ''SYN_FLOOD'' else ''OK'')"

fun threat_lines :: "bool \<Rightarrow> int \<Rightarrow> int \<Rightarrow> threat_row list \<Rightarrow> curses list" where
  "threat_lines color max_y line [] = []"
| "threat_lines color max_y line (row # rows) =
     (if line \<ge> max_y - 1 then []
      else (if tr_flagged row \<and> color then [AttrOn RedAttr] else []) @ [Mvprintw line (threat_line row)] @
           (if tr_flagged row \<and> color then [AttrOff RedAttr] else []) @ threat_lines color max_y (line + 1) rows)"

definition render_threats :: "app \<Rightarrow> shown \<Rightarrow> int \<Rightarrow> curses list" where
  "render_threats a sh max_y =
     [Mvprintw 2 ''Threat Matrix (Top Connections)'', Mvprintw 3 rule_line,
      Mvprintw 4 (pad_right 16 ''Source IP'' @ '' '' @ pad_right 8 ''SYNs'' @ '' '' @ pad_right 8 ''ACKs'' @ '' '' @
        pad_right 8 ''Ratio'' @ '' '' @ pad_right 16 ''Heuristic'' @ '' '' @ pad_right 16 ''Status'')] @
     threat_lines (color_enabled a) max_y 5 (sh_threat_rows sh)"

definition firewall_line :: "bool \<Rightarrow> firewall_row \<Rightarrow> string" where
  "firewall_line selected row =
     (if selected then ''>'' else '' '') @ '' '' @
     pad_right 20 (ipv4_format (fr_ip row) @ ''/'' @ to_string (fr_prefixlen row)) @ '' '' @
     pad_right 12 (to_string (fr_drop_count row)) @ '' '' @ to_string (fr_age_s row) @ ''s''"

fun firewall_lines :: "int \<Rightarrow> int \<Rightarrow> int \<Rightarrow> int \<Rightarrow> firewall_row list \<Rightarrow> curses list" where
  "firewall_lines sel max_y line i [] = []"
| "firewall_lines sel max_y line i (row # rows) =
     (if line < max_y - 2
      then (if i = sel then [AttrOn ReverseAttr] else []) @ [Mvprintw line (firewall_line (i = sel) row)] @
           (if i = sel then [AttrOff ReverseAttr] else []) @ firewall_lines sel max_y (line + 1) (i + 1) rows
      else [])"

definition render_firewall :: "app \<Rightarrow> shown \<Rightarrow> int \<Rightarrow> curses list \<times> app" where
  "render_firewall a sh max_y =
     (let rows = sh_firewall_rows sh; sel = firewall_selected_index a in
      ([Mvprintw 2 (''Firewall (Blacklist)'' @ middot @ ''[UP/DOWN] Select'' @ middot @ ''[a] Add'' @ middot @ ''[d] Delete''),
        Mvprintw 3 rule_line,
        Mvprintw 4 (''  '' @ pad_right 20 ''Prefix'' @ '' '' @ pad_right 12 ''Drop Count'' @ '' '' @ pad_right 8 ''Age'')] @
       firewall_lines sel max_y 5 0 rows,
       if sel \<ge> int (length rows) \<and> rows \<noteq> [] then a\<lparr>firewall_selected_index := int (length rows) - 1\<rparr> else a))"

definition render_demos :: "app \<Rightarrow> curses list" where
  "render_demos a =
     (let c = demo_cfg a in
      [Mvprintw 2 ''Demo Scenarios (Loopback by default)'',
       Mvprintw 4 (''Current target: '' @ c_str (target_ip c) @ '':'' @ to_string (target_port c)),
       Mvprintw 5 (''Current rate:   '' @ to_string (rate_pps c) @ '' pps''),
       Mvprintw 6 (''Current length: '' @ to_string (duration_s c) @ '' s''),
       Mvprintw 8 ''[t] Target [o] Port [r] Rate [d] Duration'',
       Mvprintw 9 ''[s] SYN Flood [p] ICMP Ping Flood [u] UDP Storm'',
       Mvprintw 11 ''Targets outside loopback still require --i-know-what-im-doing via the CLI.''])"

definition render :: "shown \<Rightarrow> int \<Rightarrow> int \<Rightarrow> nat \<Rightarrow> app \<Rightarrow> curses list \<times> app" where
  "render sh max_y max_x uptime a =
     (let (body, a') = (case current_view a of
            Dashboard \<Rightarrow> (render_dashboard sh max_y max_x, a)
          | Threats \<Rightarrow> (render_threats a sh max_y, a)
          | Firewall \<Rightarrow> render_firewall a sh max_y
          | Demos \<Rightarrow> (render_demos a, a))
      in ([Erase] @ (if color_enabled a then [AttrOn HeaderAttr] else []) @ [Mvprintw 0 (header_line a sh uptime)] @
          (if color_enabled a then [AttrOff HeaderAttr] else []) @ body @ [Refresh], a'))"

section \<open>Texts: facts\<close>

text \<open>Both formatters print the same flags.\<close>

lemma tui_flags_same: "tui_format_tcp_flags f = format_tcp_flags f"
  by (simp add: tui_format_tcp_flags_def format_tcp_flags_def Let_def)

lemma round_half_even_near:
  assumes "0 < d"
  shows "2 * \<bar>int (round_half_even n d) * int d - int n\<bar> \<le> int d"
proof -
  define q r where "q = n div d" and "r = n mod d"
  have n: "n = q * d + r" and r: "r < d" using assms by (simp_all add: q_def r_def)
  have "round_half_even n d = q \<and> 2 * r \<le> d \<or> round_half_even n d = q + 1 \<and> d \<le> 2 * r"
    by (auto simp: round_half_even_def Let_def q_def r_def)
  then show ?thesis using r by (auto simp: n algebra_simps abs_if)
qed

lemma scale_bits_ge: "0 < s \<Longrightarrow> 2 ^ 52 * a \<le> s * 2 ^ scale_bits s a k"
  by (induction s a k rule: scale_bits.induct) (simp add: scale_bits.simps)

lemma scale_bits_32:
  assumes "0 < s" "s < 2 ^ 32" "0 < a"
  shows "20 \<le> scale_bits s a 0"
proof (rule ccontr)
  assume "\<not> 20 \<le> scale_bits s a 0"
  then have "(2 :: nat) ^ scale_bits s a 0 \<le> 2 ^ 19" by (intro power_increasing) simp_all
  then have "s * 2 ^ scale_bits s a 0 \<le> s * 2 ^ 19" by simp
  also have "\<dots> < 2 ^ 52 * a" using assms by simp
  finally show False using scale_bits_ge[OF assms(1), of a 0] by simp
qed

text \<open>
  The ratio shown is the true one rounded to a tenth, up to the precision of a double: it is at most
  \<open>0.05 + 0.000001\<close> away.
\<close>

lemma ratio_accurate:
  assumes "0 < s" "s < 2 ^ 32" "0 < a"
  shows "2 ^ 21 * \<bar>int (ratio_tenths s a) * int a - 10 * int s\<bar> \<le> int a * (2 ^ 20 + 10)"
proof -
  define k where "k = scale_bits s a 0"
  define m where "m = round_half_even (s * 2 ^ k) a"
  define p where "p = (2 :: int) ^ (k - 20)"
  have k: "20 \<le> k" using scale_bits_32[OF assms] by (simp add: k_def)
  have "(2 :: int) ^ k = 2 ^ (20 + (k - 20))" using k by simp
  then have pk: "(2 :: int) ^ k = 2 ^ 20 * p" unfolding p_def power_add .
  have p: "1 \<le> p" by (simp add: p_def)
  have m: "2 * \<bar>int m * int a - int s * 2 ^ k\<bar> \<le> int a"
    using round_half_even_near[of a "s * 2 ^ k"] assms(3) by (simp add: m_def)
  have t: "2 * \<bar>int (ratio_tenths s a) * 2 ^ k - 10 * int m\<bar> \<le> 2 ^ k"
    using round_half_even_near[of "2 ^ k" "10 * m"] by (simp add: ratio_tenths_def Let_def k_def m_def)
  let ?t = "int (ratio_tenths s a)"
  define X Y where "X = ?t * 2 ^ k - 10 * int m" and "Y = int m * int a - int s * 2 ^ k"
  have eq: "(?t * int a - 10 * int s) * 2 ^ k = X * int a + 10 * Y" by (simp add: X_def Y_def algebra_simps)
  have absp: "\<bar>z * (2 ^ 20 * p)\<bar> = 2 ^ 20 * (\<bar>z\<bar> * p)" for z using p by (simp add: abs_mult)
  have "\<bar>X * int a + 10 * Y\<bar> \<le> \<bar>X\<bar> * int a + 10 * \<bar>Y\<bar>"
    using abs_triangle_ineq[of "X * int a" "10 * Y"] by (simp add: abs_mult)
  then have "2 * \<bar>(?t * int a - 10 * int s) * 2 ^ k\<bar> \<le> 2 * \<bar>X\<bar> * int a + 10 * int a"
    unfolding eq using m[folded Y_def] by simp
  also have "\<dots> \<le> 2 ^ k * int a + 10 * int a" using mult_right_mono[OF t[folded X_def], of "int a"] by simp
  also have "\<dots> \<le> (2 ^ 20 * int a + 10 * int a) * p" using p pk mult_left_mono[OF p, of "10 * int a"] by (simp add: algebra_simps)
  finally have "(2 ^ 21 * \<bar>?t * int a - 10 * int s\<bar>) * p \<le> (int a * (2 ^ 20 + 10)) * p"
    unfolding pk using absp[of "?t * int a - 10 * int s"] by (simp add: mult.assoc mult.commute[of p])
  then show ?thesis using p by simp
qed

lemma protocol_pct_bound:
  assumes "unat v * 100 < 2 ^ 64" "v \<le> tot"
  shows "unat (protocol_pct v tot) = unat v * 100 div unat tot" "unat (protocol_pct v tot) \<le> 100"
proof -
  have "unat (v * 100) = unat v * 100" using assms(1) by (simp add: unat_word_ariths)
  then show pct: "unat (protocol_pct v tot) = unat v * 100 div unat tot"
    by (simp add: protocol_pct_def unat_div_distrib)
  have "unat v * 100 div unat tot \<le> unat tot * 100 div unat tot"
    using assms(2) by (intro div_le_mono) (simp add: word_le_nat_alt)
  then show "unat (protocol_pct v tot) \<le> 100" unfolding pct by (cases "unat tot = 0") simp_all
qed

section \<open>Keys and frames\<close>

text \<open>A session of the interface: keys (with the rows at that time and the answer) and frames.\<close>

datatype tui_op = Key "firewall_row list" int "string option" | Frame shown int int nat

fun tui_step :: "lpm_ops \<Rightarrow> tui_op \<Rightarrow> app \<times> lpm_map \<Rightarrow> app \<times> lpm_map" where
  "tui_step ops (Key rows ch answer) (a, m) = handle_input ops rows ch answer a m"
| "tui_step ops (Frame sh max_y max_x uptime) (a, m) = (snd (render sh max_y max_x uptime a), m)"

definition demo_safe :: "demo_config \<Rightarrow> bool" where
  "demo_safe cfg \<longleftrightarrow> \<not> override_safety cfg"

definition app_inv :: "app \<Rightarrow> bool" where
  "app_inv a \<longleftrightarrow> 0 \<le> firewall_selected_index a \<and> demo_safe (demo_cfg a) \<and> list_all (\<lambda>d. demo_safe (snd d)) (launched a)"

lemma app_inv_new: "app_inv (App n md)"
  by (simp add: app_inv_def App_def demo_safe_def)

lemma app_inv_firewall: "app_inv a \<Longrightarrow> app_inv (fst (firewall_keys ops rows ch answer a m))"
  by (simp add: firewall_keys_def app_inv_def Let_def)

lemma app_inv_demo: "app_inv a \<Longrightarrow> app_inv (demo_keys ch answer a)"
  by (simp add: demo_keys_def app_inv_def launch_demo_def demo_safe_def Let_def split: option.split)

lemma app_inv_key: "app_inv a \<Longrightarrow> app_inv (fst (handle_input ops rows ch answer a m))"
  using app_inv_firewall[of a ops rows ch answer m] app_inv_demo[of a ch answer]
  by (simp add: handle_input_def) (simp add: app_inv_def)

lemma app_inv_frame: "app_inv a \<Longrightarrow> app_inv (snd (render sh max_y max_x uptime a))"
  by (auto simp: render_def render_firewall_def app_inv_def Let_def Suc_le_eq split: View.split)

lemma app_inv_run: "app_inv (fst st) \<Longrightarrow> app_inv (fst (fold (tui_step ops) xs st))"
proof (induction xs arbitrary: st)
  case (Cons x xs)
  have "app_inv (fst (tui_step ops x st))"
    using Cons.prems by (cases x; cases st) (simp_all add: app_inv_key app_inv_frame)
  with Cons.IH show ?case by simp
qed simp

text \<open>The thread of a demo without the override sends to loopback addresses only.\<close>

lemma thread_loopback:
  assumes "demo_thread env (nm, cfg) = Some (Done q ps)" "\<not> override_safety cfg" "x \<in> set ps"
  shows "byte_at 0 (fst x) = 127"
proof -
  let ?b = "plain_build\<lparr>with_experimental := True\<rparr>"
  have run: "run_scenario ?b env nm cfg = Some (Some (Done q ps))"
    using assms(1,3) by (auto simp: demo_thread_def run_scenario_def split: if_split_asm)
  then have dest: "fst x = dest_addr cfg" using assms(3) by (rule scenario_dest)
  have "is_ok (validate_target (target_ip cfg) (override_safety cfg))"
  proof (cases "validate_target (target_ip cfg) (override_safety cfg)")
    case (Err e)
    with run assms(3) show ?thesis
      by (simp add: run_scenario_def run_ping_flood_def run_udp_storm_def run_syn_flood_def split: if_split_asm)
  qed simp
  then show ?thesis
    using assms(2) loopback_byte unfolding dest
    by (auto simp: validate_target_def dest_addr_def split: option.split_asm if_split_asm)
qed

lemma firewall_lines_nth:
  "i < length rows \<Longrightarrow> line + int i < max_y - 2 \<Longrightarrow>
     Mvprintw (line + int i) (firewall_line (k + int i = sel) (rows ! i)) \<in> set (firewall_lines sel max_y line k rows)"
proof (induction rows arbitrary: i line k)
  case (Cons row rows)
  show ?case
  proof (cases i)
    case 0
    with Cons.prems show ?thesis by simp
  next
    case (Suc j)
    have "Mvprintw (line + 1 + int j) (firewall_line (k + 1 + int j = sel) (rows ! j)) \<in>
        set (firewall_lines sel max_y (line + 1) (k + 1) rows)"
      using Cons.prems Suc by (intro Cons.IH) simp_all
    moreover have "line + 1 + int j = line + int i" "k + 1 + int j = k + int i" "(row # rows) ! i = rows ! j"
      "line < max_y - 2" using Suc Cons.prems(2) by simp_all
    ultimately show ?thesis by simp
  qed
qed simp

text \<open>A zero rate is accepted by the interface, and the demo then divides by zero.\<close>

lemma tui_rate_zero_crash:
  "\<exists>d \<in> set (launched (fst (fold (tui_step ops)
      [Key [] 52 None, Key [] 114 (Some ''0''), Key [] 112 None] (App ''lo'' ''skb'', m)))).
     demo_thread quick_env d = Some Fpe"
proof -
  have u32: "parse_u32_input ''0'' = Some 0"
    by (simp add: parse_u32_input_def stoul_def scan_number_def is_space_def is_digit_def nat_of_dec_def digit_val_def)
  have pton: "inet_pton ''127.0.0.1'' = Some (le32 127 0 0 1)"
    by (simp add: inet_pton_def octet_ok_def octet_def is_digit_def nat_of_dec_def digit_val_def)
  have val: "validate_target ''127.0.0.1'' False = Ok ()"
    using loopback_byte[of "le32 127 0 0 1"] by (simp add: validate_target_def c_str_def pton)
  show ?thesis
    by (simp add: handle_input_def pressed_def demo_keys_def App_def prompt_input_def u32 launch_demo_def
        demo_thread_def run_ping_flood_def val quick_env_def)
qed

section \<open>Properties\<close>

text \<open>
  Property C28. From the terminal interface no demo can leave the machine: whatever keys are
  pressed and whatever is answered to the prompts, in any order with redrawing, every demo thread that was
  started sends its datagrams to \<open>127.0.0.0/8\<close> only. The interface cannot set the override.
\<close>

theorem tui_demo_loopback:
  assumes "d \<in> set (launched (fst (fold (tui_step ops) xs (App n md, m))))"
    and "demo_thread env d = Some (Done q ps)"
  shows "\<not> override_safety (snd d) \<and> list_all (\<lambda>(daddr, bytes). byte_at 0 daddr = 127) ps"
proof -
  have "app_inv (fst (fold (tui_step ops) xs (App n md, m)))" using app_inv_new by (intro app_inv_run) simp
  with assms(1) have safe: "\<not> override_safety (snd d)" by (auto simp: app_inv_def demo_safe_def list_all_iff)
  with thread_loopback[of env "fst d" "snd d" q ps] assms(2) show ?thesis by (auto simp: list_all_iff)
qed

theorem tui_demo_loopback_witness:
  "\<exists>d ps. d \<in> set (launched (fst (fold (tui_step (ref_ops (\<lambda>_ _. None))) [Key [] 52 None, Key [] 117 None] (App ''lo'' ''skb'', Map.empty)))) \<and>
     demo_thread quick_env d = Some (Done (Ok ()) ps) \<and> ps \<noteq> [] \<and>
     list_all (\<lambda>(daddr, bytes). byte_at 0 daddr = 127) ps"
proof -
  let ?d = "(''udp-storm'', demo_cfg (App ''lo'' ''skb''))"
  have d: "?d \<in> set (launched (fst (fold (tui_step (ref_ops (\<lambda>_ _. None))) [Key [] 52 None, Key [] 117 None] (App ''lo'' ''skb'', Map.empty))))"
    by (simp add: handle_input_def pressed_def demo_keys_def App_def launch_demo_def)
  have pton: "inet_pton ''127.0.0.1'' = Some (le32 127 0 0 1)"
    by (simp add: inet_pton_def octet_ok_def octet_def is_digit_def nat_of_dec_def digit_val_def)
  have val: "validate_target ''127.0.0.1'' False = Ok ()"
    using loopback_byte[of "le32 127 0 0 1"] by (simp add: validate_target_def c_str_def pton)
  obtain ps where r: "demo_thread quick_env ?d = Some (Done (Ok ()) ps)" "ps \<noteq> []"
    by (simp add: demo_thread_def run_udp_storm_def val App_def quick_env_def send_loop.simps sends_def)
  with d tui_demo_loopback[OF d r(1)] show ?thesis by blast
qed

text \<open>
  Property C29. In the firewall view with a non-empty blacklist, drawing leaves the selection on
  an existing row, every visible row is printed in its place and marked with \<open>>\<close> exactly when it was
  selected, and a following \<open>d\<close> deletes precisely the prefix of the row the selection is on; a selection
  that was valid is not moved.
\<close>

theorem firewall_selection:
  assumes "current_view a = Firewall" "0 \<le> firewall_selected_index a" "sh_firewall_rows sh = rows" "rows \<noteq> []"
    and "render sh max_y max_x uptime a = (screen, a')"
  shows "0 \<le> firewall_selected_index a' \<and> firewall_selected_index a' < int (length rows) \<and>
    (firewall_selected_index a < int (length rows) \<longrightarrow> firewall_selected_index a' = firewall_selected_index a) \<and>
    (\<forall>i < length rows. 5 + int i < max_y - 2 \<longrightarrow>
       Mvprintw (5 + int i) (firewall_line (int i = firewall_selected_index a) (rows ! i)) \<in> set screen) \<and>
    handle_input ops rows (of_char CHR ''d'') answer a' m =
      (a', let row = rows ! nat (firewall_selected_index a') in snd (lpm_delete ops (fr_prefixlen row, fr_ip row) m))"
proof -
  have a': "a' = (if firewall_selected_index a \<ge> int (length rows) then a\<lparr>firewall_selected_index := int (length rows) - 1\<rparr> else a)"
    using assms by (auto simp: render_def render_firewall_def Let_def)
  have screen: "set (firewall_lines (firewall_selected_index a) max_y 5 0 rows) \<subseteq> set screen"
    using assms by (auto simp: render_def render_firewall_def Let_def)
  have sel: "0 \<le> firewall_selected_index a'" "firewall_selected_index a' < int (length rows)"
    "firewall_selected_index a < int (length rows) \<longrightarrow> firewall_selected_index a' = firewall_selected_index a"
    "current_view a' = Firewall"
    using a' assms(1,2,4) by (auto simp: Suc_le_eq)
  have lines: "Mvprintw (5 + int i) (firewall_line (int i = firewall_selected_index a) (rows ! i)) \<in> set screen"
    if "i < length rows" "5 + int i < max_y - 2" for i
    using firewall_lines_nth[OF that, of 0 "firewall_selected_index a"] screen by auto
  have key: "handle_input ops rows (of_char CHR ''d'') answer a' m =
      (a', let row = rows ! nat (firewall_selected_index a') in snd (lpm_delete ops (fr_prefixlen row, fr_ip row) m))"
    using sel by (simp add: handle_input_def firewall_keys_def pressed_def KEY_UP_def KEY_DOWN_def Let_def)
  show ?thesis using sel lines key by blast
qed

definition empty_shown :: shown where
  "empty_shown = \<lparr>sh_pps_points = [], sh_current_pps = 0, sh_recent_events = [], sh_threat_rows = [],
     sh_firewall_rows = [], sh_breakdown = \<lparr>pb_tcp = 0, pb_udp = 0, pb_icmp = 0, pb_other = 0, pb_dropped = 0\<rparr>,
     sh_error_count = 0, sh_drop_count = 0\<rparr>"

theorem firewall_selection_witness:
  "\<exists>screen a'. render (empty_shown\<lparr>sh_firewall_rows := [\<lparr>fr_prefixlen = 8, fr_ip = 10, fr_age_s = 0, fr_drop_count = 0\<rparr>]\<rparr>) 24 80 0
      (App ''lo'' ''skb''\<lparr>current_view := Firewall, firewall_selected_index := 3\<rparr>) = (screen, a') \<and>
     firewall_selected_index a' = 0"
proof -
  let ?row = "\<lparr>fr_prefixlen = 8, fr_ip = 10, fr_age_s = 0, fr_drop_count = 0\<rparr>"
  let ?sh = "empty_shown\<lparr>sh_firewall_rows := [?row]\<rparr>"
  let ?a = "App ''lo'' ''skb''\<lparr>current_view := Firewall, firewall_selected_index := 3\<rparr>"
  obtain screen a' where r: "render ?sh 24 80 0 ?a = (screen, a')" by (rule prod.exhaust)
  have "0 \<le> firewall_selected_index a' \<and> firewall_selected_index a' < int (length [?row])"
    using firewall_selection[OF _ _ _ _ r, of "[?row]"] by simp
  then have "firewall_selected_index a' = 0" by simp
  with r show ?thesis by blast
qed

end
