(* ===== verification/KW_Session.thy ===== *)
theory KW_Session
  imports KW_Pin KW_Runtime KW_Cli
begin

text \<open>
  The life of a monitoring process: \<open>src/cli/commands/run.cpp\<close>, and the start and end that
  \<open>src/cli/commands/top.cpp\<close> has in common with it. The answers of the kernel and of libbpf during the
  start are the record \<open>start_env\<close>. What \<open>epoll_wait\<close> returns is a list; a loop that has used up the
  list is still waiting. A command yields its exit status, the files it leaves, and the descriptors it was
  given and those it closed, the work of the destructors on every path included.
\<close>

section \<open>The epoll loop\<close>

datatype 't ep = EpSignal "int option" | EpRing "u8 list list" | EpTick 't
datatype 't ep_wait = Ready "'t ep list" | Interrupted | Failed

text \<open>The \<open>for\<close> loop over the ready descriptors; the flag tells that a signal ended it.\<close>

fun ep_batch ::
    "(int \<Rightarrow> bool) \<Rightarrow> (u8 list list \<Rightarrow> 's \<Rightarrow> 's) \<Rightarrow> ('t \<Rightarrow> 's \<Rightarrow> 's option) \<Rightarrow> 't ep list \<Rightarrow> 's \<Rightarrow> ('s \<times> bool) option" where
  "ep_batch stop_on ring tick [] s = Some (s, False)"
| "ep_batch stop_on ring tick (EpSignal got # es) s =
     (if stop_on (read_signal got) then Some (s, True) else ep_batch stop_on ring tick es s)"
| "ep_batch stop_on ring tick (EpRing recs # es) s = ep_batch stop_on ring tick es (ring recs s)"
| "ep_batch stop_on ring tick (EpTick x # es) s =
     (case tick x s of None \<Rightarrow> None | Some s' \<Rightarrow> ep_batch stop_on ring tick es s')"

text \<open>The \<open>while\<close> loop; the flag tells that the loop has ended.\<close>

fun ep_loop ::
    "(int \<Rightarrow> bool) \<Rightarrow> (u8 list list \<Rightarrow> 's \<Rightarrow> 's) \<Rightarrow> ('t \<Rightarrow> 's \<Rightarrow> 's option) \<Rightarrow> ('s \<Rightarrow> bool) \<Rightarrow> 't ep_wait list \<Rightarrow> 's \<Rightarrow>
     ('s \<times> bool) option" where
  "ep_loop stop_on ring tick alive ws s =
     (if \<not> alive s then Some (s, True)
      else case ws of
        [] \<Rightarrow> Some (s, False)
      | Interrupted # ws' \<Rightarrow> ep_loop stop_on ring tick alive ws' s
      | Failed # _ \<Rightarrow> Some (s, True)
      | Ready es # ws' \<Rightarrow>
          (case ep_batch stop_on ring tick es s of
             None \<Rightarrow> None
           | Some (s', True) \<Rightarrow> Some (s', True)
           | Some (s', False) \<Rightarrow> ep_loop stop_on ring tick alive ws' s'))"

declare ep_loop.simps [simp del]

section \<open>Start and end\<close>

record start_env =
  e_nametoindex :: "string \<Rightarrow> u32"
  e_open_errno :: "int option"
  e_rodata :: bool
  e_load_ret :: int
  e_libbpf :: libbpf
  e_proc :: procfs
  e_getpid :: int
  e_prog_fd :: int
  e_link_create :: "u32 \<Rightarrow> int"
  e_strerror :: "int \<Rightarrow> string"
  e_procmask :: int
  e_signalfd :: int
  e_timerfd :: int
  e_settime :: "int \<times> int \<Rightarrow> int"
  e_ringbuf :: bool
  e_epoll :: int

record session =
  s_skel :: skeleton
  s_attach :: xdp_attach
  s_signals :: signal_handler
  s_tick :: tick_timer
  s_epoll :: unique_fd

record outcome =
  o_code :: int
  o_host :: host
  o_opened :: "int list"
  o_closed :: "int list"

text \<open>The objects before they are initialised own nothing.\<close>

definition no_session :: session where
  "no_session = \<lparr>s_skel = \<lparr>skel = False, pinned_path = [], owner_pid_path = []\<rparr>, s_attach = XdpAttach 0,
     s_signals = \<lparr>sfd = \<lparr>ufd_fd = -1\<rparr>\<rparr>, s_tick = TickTimer, s_epoll = \<lparr>ufd_fd = -1\<rparr>\<rparr>"

text \<open>A \<open>return\<close>: the destructors run in the reverse order of construction.\<close>

definition leave :: "start_env \<Rightarrow> session \<Rightarrow> int list \<Rightarrow> int list \<Rightarrow> int \<Rightarrow> host \<Rightarrow> outcome" where
  "leave env s opened closed code h =
     \<lparr>o_code = code, o_host = snd (skeleton_destroy (e_libbpf env) (s_skel s) h), o_opened = opened,
      o_closed = closed @ ufd_destroy (s_epoll s) @ tick_destroy (s_tick s) @ ufd_destroy (sfd (s_signals s)) @
        xdp_destroy (s_attach s)\<rparr>"

text \<open>
  From the attachment to the creation of the epoll descriptor: an early return, or the initialised
  objects with the file system and the descriptors opened and closed.
\<close>

definition session_attach ::
    "start_env \<Rightarrow> skeleton \<Rightarrow> u32 \<Rightarrow> string \<Rightarrow> host \<Rightarrow> outcome + session \<times> host \<times> int list \<times> int list" where
  "session_attach env sk if_ix xdp_mode h =
     (let s = no_session\<lparr>s_skel := sk\<rparr>;
          ((attach_res, attach_err), att, cl) =
            attach (e_strerror env) (e_prog_fd env) (e_link_create env) xdp_mode (XdpAttach (sint if_ix));
          s = s\<lparr>s_attach := att\<rparr> in
      if \<not> is_ok attach_res
      then Inl (leave env s [] cl (if attach_err = EPERM \<or> attach_err = EACCES then 77 else 69) h)
      else let opened = [link_fd att];
               (sig_res, sg, cl1) = signals_init (e_procmask env) (e_signalfd env) (s_signals s);
               s = s\<lparr>s_signals := sg\<rparr>; cl = cl @ cl1;
               opened = opened @ (if e_procmask env = -1 \<or> e_signalfd env = -1 then [] else [e_signalfd env]) in
      if \<not> is_ok sig_res then Inl (leave env s opened cl 125 h)
      else let (tick_res, tk, its, cl2) = tick_init (e_timerfd env) (e_settime env) 2 (s_tick s);
               s = s\<lparr>s_tick := tk\<rparr>; cl = cl @ cl2;
               opened = opened @ (if e_timerfd env = -1 then [] else [e_timerfd env]) in
      if \<not> is_ok tick_res then Inl (leave env s opened cl 125 h)
      else if \<not> e_ringbuf env then Inl (leave env s opened cl 125 h)
      else let ep = \<lparr>ufd_fd = e_epoll env\<rparr>; s = s\<lparr>s_epoll := ep\<rparr> in
      if \<not> ufd_is_valid ep then Inl (leave env s opened cl 125 h)
      else Inr (s, h, opened @ [e_epoll env], cl))"

text \<open>The steps before: the interface, the BPF object and the pinned maps.\<close>

definition session_start ::
    "start_env \<Rightarrow> string \<Rightarrow> u32 \<Rightarrow> u32 \<Rightarrow> string \<Rightarrow> host \<Rightarrow> outcome + session \<times> host \<times> int list \<times> int list" where
  "session_start env if_name sample_n window xdp_mode h =
     (let if_ix = e_nametoindex env if_name in
      if if_ix = 0 then Inl (leave env no_session [] [] 65 h)
      else case open_and_load (e_open_errno env) (e_rodata env) (e_load_ret env) sample_n window of
        (Err _, load_err, _) \<Rightarrow>
          Inl (leave env no_session [] [] (if load_err = EPERM \<or> load_err = EACCES then 77 else 69) h)
      | (Ok sk, _, _) \<Rightarrow>
          (case skeleton_pin (e_libbpf env) (e_proc env) (e_getpid env) (pin_path_for_iface if_name)
                  (owner_pid_path_for_iface if_name) sk h of
             (Err _, sk, h) \<Rightarrow> Inl (leave env (no_session\<lparr>s_skel := sk\<rparr>) [] [] 69 h)
           | (Ok _, sk, h) \<Rightarrow> session_attach env sk if_ix xdp_mode h))"

text \<open>After the loop: \<open>skel->unpin(pin_path); return 0;\<close> and the destructors.\<close>

definition session_end :: "start_env \<Rightarrow> string \<Rightarrow> session \<times> host \<times> int list \<times> int list \<Rightarrow> outcome" where
  "session_end env if_name st =
     (let (s, h, opened, cl) = st;
          (sk, h) = skeleton_unpin (e_libbpf env) (pin_path_for_iface if_name) (s_skel s) h
      in leave env (s\<lparr>s_skel := sk\<rparr>) opened cl 0 h)"

section \<open>The run command\<close>

definition kDefaultSynWindowSeconds :: u32 where
  "kDefaultSynWindowSeconds = 10"

text \<open>The callback prints one line per event; \<open>now k\<close> is the time at the \<open>k\<close>-th line.\<close>

definition run_cb :: "bool \<Rightarrow> (nat \<Rightarrow> string) \<Rightarrow> kwatch_event \<Rightarrow> string list \<Rightarrow> string list" where
  "run_cb json now e out = out @ [format_event e (if json then Json else Text) (now (length out)) @ [CHR 0x0A]]"

definition run_stops :: "int \<Rightarrow> bool" where
  "run_stops sig \<longleftrightarrow> sig = SIGINT \<or> sig = SIGTERM"

type_synonym run_state = "string list ringbuf \<times> string list"

definition run_loop ::
    "run_state ring_consume \<Rightarrow> unit ep_wait list \<Rightarrow> run_state \<Rightarrow> (run_state \<times> bool) option" where
  "run_loop rc = ep_loop run_stops (consume rc 1024) (\<lambda>_ s. Some s) (\<lambda>_. True)"

text \<open>\<open>None\<close> is a loop that is still waiting; otherwise the outcome and the lines printed.\<close>

definition cmd_run ::
    "start_env \<Rightarrow> (nat \<Rightarrow> string) \<Rightarrow> run_state ring_consume \<Rightarrow> global_options \<Rightarrow> string list \<Rightarrow> unit ep_wait list \<Rightarrow> host \<Rightarrow>
     (outcome \<times> string list) option" where
  "cmd_run env now rc globals args waits h =
     (if length args \<noteq> 1 then Some (leave env no_session [] [] 64 h, [])
      else let if_name = args ! 0 in
      case session_start env if_name (g_sample_n globals) kDefaultSynWindowSeconds (g_xdp_mode globals) h of
        Inl out \<Rightarrow> Some (out, [])
      | Inr st \<Rightarrow>
          (let rb = snd (ringbuf_init True (run_cb (g_json globals) now) RingBuf) in
           case run_loop rc waits (rb, []) of
             Some ((_, lines), True) \<Rightarrow> Some (session_end env if_name st, lines)
           | _ \<Rightarrow> None))"

section \<open>No owner record outlives its process\<close>

text \<open>What libbpf documents of pinning: only files in the pin directory are created or removed.\<close>

definition libbpf_law :: "libbpf \<Rightarrow> bool" where
  "libbpf_law lb \<longleftrightarrow> (\<forall>p h.
     h_fault (snd (pin_maps lb p h)) = h_fault h \<and> h_fault (unpin_maps lb p h) = h_fault h \<and>
     (\<forall>q. parent_dir q \<noteq> p \<longrightarrow> map_of (h_files (snd (pin_maps lb p h))) q = map_of (h_files h) q \<and>
        map_of (h_files (unpin_maps lb p h)) q = map_of (h_files h) q))"

text \<open>The file \<open>q\<close> is removed or as before.\<close>

definition keeps :: "string \<Rightarrow> host \<Rightarrow> host \<Rightarrow> bool" where
  "keeps q h h' \<longleftrightarrow> h_fault h' = h_fault h \<and>
     (map_of (h_files h') q = None \<or> map_of (h_files h') q = map_of (h_files h) q)"

lemma keeps_refl [simp]: "keeps q h h"
  by (simp add: keeps_def)

lemma keeps_trans: "keeps q a b \<Longrightarrow> keeps q b c \<Longrightarrow> keeps q a c"
  unfolding keeps_def by metis

lemma keeps_calls:
  "keeps q h (snd (sys_unlink p h))" "keeps q h (snd (sys_rmdir p h))" "keeps q h (snd (sys_mkdir p h))"
  "keeps q h (undo_dir created p h)"
  by (auto simp: keeps_def sys_unlink_def sys_rmdir_def sys_mkdir_def undo_dir_def delete_conv' split: option.split)

lemma keeps_libbpf:
  assumes "libbpf_law lb" "parent_dir q \<noteq> p"
  shows "keeps q h (snd (pin_maps lb p h))" "keeps q h (unpin_maps lb p h)"
  using assms by (simp_all add: keeps_def libbpf_law_def)

lemma keeps_ensure_dir: "keeps q h (snd (ensure_dir p h))"
  using keeps_calls(3)[of q h p] by (auto simp: ensure_dir_def Let_def case_prod_beta)

lemma keeps_owner_parent: "keeps q h (snd (ensure_owner_pid_parent p h))"
proof -
  obtain r h1 where e: "ensure_dir ''/run/kwatch'' h = (r, h1)" by (rule prod.exhaust)
  have "keeps q h h1" using keeps_ensure_dir[of q h "''/run/kwatch''"] e by simp
  then show ?thesis
    using keeps_trans[OF _ keeps_ensure_dir] e by (cases r) (auto simp: ensure_owner_pid_parent_def Let_def)
qed

lemma write_owner_err_keeps:
  assumes "write_owner_pid_file proc pid q h = (Err e, h')" "h_fault h ''unlink'' q = None"
  shows "keeps q h h'"
proof -
  have "map_of (h_files (snd (sys_unlink q (write_file q [] h)))) q = None"
    using assms(2) by (simp add: sys_unlink_def write_file_def delete_conv' update_conv')
  then have "keeps q h (snd (sys_unlink q (write_file q [] h)))"
    using keeps_calls(1)[of q "write_file q [] h" q] by (simp add: keeps_def write_file_def)
  then show ?thesis
    using assms(1) by (auto simp: write_owner_pid_file_def Let_def split: result.splits if_split_asm)
qed

text \<open>A pin that fails leaves the owner file removed or as it was.\<close>

lemma pin_err_keeps:
  assumes "skeleton_pin lb proc pid path q sk h = (Err e, sk', h')" "libbpf_law lb" "parent_dir q \<noteq> path"
    and "h_fault h ''unlink'' q = None"
  shows "keeps q h h' \<and> sk' = sk"
proof -
  obtain mk h1 where mk: "sys_mkdir path h = (mk, h1)" by (rule prod.exhaust)
  define h2 where "h2 = (if is_ok (read_owner_state h1 q) then snd (sys_unlink q (unpin_maps lb path h1))
      else if \<not> directory_is_empty path h1 then unpin_maps lb path h1 else h1)"
  define h3 where "h3 = snd (pin_maps lb path h2)"
  define h4 where "h4 = snd (ensure_owner_pid_parent q h3)"
  note lib = keeps_libbpf[OF assms(2,3)]
  have k1: "keeps q h h1" using keeps_calls(3)[of q h path] mk by simp
  have k2: "keeps q h h2"
    unfolding h2_def using keeps_trans[OF k1] lib(2) keeps_trans[OF lib(2) keeps_calls(1)] k1 by auto
  have k3: "keeps q h h3" unfolding h3_def by (rule keeps_trans[OF k2 lib(1)])
  have k4: "keeps q h h4" unfolding h4_def by (rule keeps_trans[OF k3 keeps_owner_parent])
  have undo: "keeps q h (undo_dir c path g)" if "keeps q h g" for c g by (rule keeps_trans[OF that keeps_calls(4)])
  have undo2: "keeps q h (undo_dir c path (unpin_maps lb path g))" if "keeps q h g" for c g
    by (rule undo[OF keeps_trans[OF that lib(2)]])
  have rm: "keeps q h (snd (sys_rmdir path h1))" by (rule keeps_trans[OF k1 keeps_calls(2)])
  obtain er where er: "pin_maps lb path h2 = (er, h3)" unfolding h3_def by (metis prod.collapse)
  obtain pr where pr: "ensure_owner_pid_parent q h3 = (pr, h4)" unfolding h4_def by (metis prod.collapse)
  obtain wr h5 where wr: "write_owner_pid_file proc pid q h4 = (wr, h5)" by (rule prod.exhaust)
  have k5: "keeps q h h5" if "wr = Err m" for m
    using write_owner_err_keeps[of proc pid q h4 m h5] wr that k4 assms(4) keeps_trans[OF k4]
    by (simp add: keeps_def)
  show ?thesis
    using assms(1) k1 rm undo undo2 k3 k4 k5 unfolding skeleton_pin_def Let_def mk prod.case h2_def[symmetric] er pr wr
    by (cases pr; cases wr) (auto split: if_split_asm)
qed

lemma unpin_owner_gone:
  assumes "libbpf_law lb" "skel sk" "owner_pid_path sk = q" "q \<noteq> []" "h_fault h ''unlink'' q = None"
  shows "map_of (h_files (snd (skeleton_unpin lb path sk h))) q = None"
proof -
  let ?h1 = "unpin_maps lb path h"
  let ?h2 = "snd (sys_unlink q ?h1)"
  have "h_fault ?h1 ''unlink'' q = None" using assms(1,5) by (simp add: libbpf_law_def)
  then have "map_of (h_files ?h2) q = None"
    by (simp add: sys_unlink_def delete_conv')
  then show ?thesis using assms(2-4) by (simp add: skeleton_unpin_def Let_def)
qed

lemma destroy_unpinned [simp]: "pinned_path sk = [] \<Longrightarrow> snd (skeleton_destroy lb sk h) = h"
  by (simp add: skeleton_destroy_def)

lemma destroy_owner_gone:
  assumes "libbpf_law lb" "skel sk" "pinned_path sk \<noteq> []" "owner_pid_path sk = q" "q \<noteq> []" "h_fault h ''unlink'' q = None"
  shows "map_of (h_files (snd (skeleton_destroy lb sk h))) q = None"
  using unpin_owner_gone[OF assms(1,2,4-6)] assms(2,3) by (simp add: skeleton_destroy_def case_prod_beta)

section \<open>Every descriptor is closed\<close>

definition session_fds :: "session \<Rightarrow> int list" where
  "session_fds s = ufd_destroy (s_epoll s) @ tick_destroy (s_tick s) @ ufd_destroy (sfd (s_signals s)) @
     xdp_destroy (s_attach s)"

lemma leave_simps [simp]:
  "o_code (leave env s opened closed code h) = code" "o_opened (leave env s opened closed code h) = opened"
  "o_closed (leave env s opened closed code h) = closed @ session_fds s"
  "o_host (leave env s opened closed code h) = snd (skeleton_destroy (e_libbpf env) (s_skel s) h)"
  by (simp_all add: leave_def session_fds_def)

lemma no_session_simps [simp]:
  "session_fds no_session = []" "session_fds (s\<lparr>s_skel := sk\<rparr>) = session_fds s" "pinned_path (s_skel no_session) = []"
  by (simp_all add: no_session_def session_fds_def ufd_destroy_def close_if_open_def is_open_fd_def tick_destroy_def
      TickTimer_def xdp_destroy_def xdp_detach_def XdpAttach_def)

lemma attach_fresh:
  assumes "attach se pf lc md (XdpAttach i) = ((r, e), att, cl)"
  shows "cl = []" "xdp_destroy att = (if is_ok r then [link_fd att] else [])"
  using assms
  by (auto simp: attach_def XdpAttach_def xdp_detach_def xdp_destroy_def Let_def case_prod_beta split: if_split_asm)

definition env_ok :: "start_env \<Rightarrow> bool" where
  "env_ok env \<longleftrightarrow> -1 \<le> e_signalfd env \<and> -1 \<le> e_timerfd env \<and> libbpf_law (e_libbpf env)"

lemma signals_fresh:
  assumes "signals_init pm fd (s_signals (no_session\<lparr>s_skel := sk, s_attach := att\<rparr>)) = (r, sg, cl)" "-1 \<le> fd"
  shows "cl = []" "ufd_destroy (sfd sg) = (if is_ok r then [fd] else [])" "is_ok r \<longleftrightarrow> pm \<noteq> -1 \<and> fd \<noteq> -1"
  using assms
  by (auto simp: signals_init_def no_session_def ufd_reset_def ufd_destroy_def close_if_open_def is_open_fd_def
      Let_def split: if_split_asm)

lemma tick_fresh:
  assumes "tick_init fd st 2 TickTimer = (r, tk, its, cl)" "-1 \<le> fd"
  shows "cl @ tick_destroy tk = (if fd = -1 then [] else [fd])"
  using assms by (auto simp: tick_init_def TickTimer_def tick_destroy_def Let_def split: if_split_asm)

lemma session_fds_built:
  "session_fds (no_session\<lparr>s_skel := sk, s_attach := att\<rparr>) = xdp_destroy att"
  "session_fds (no_session\<lparr>s_skel := sk, s_attach := att, s_signals := sg\<rparr>) = ufd_destroy (sfd sg) @ xdp_destroy att"
  "session_fds (no_session\<lparr>s_skel := sk, s_attach := att, s_signals := sg, s_tick := tk\<rparr>) =
     tick_destroy tk @ ufd_destroy (sfd sg) @ xdp_destroy att"
  "session_fds (no_session\<lparr>s_skel := sk, s_attach := att, s_signals := sg, s_tick := tk, s_epoll := ep\<rparr>) =
     ufd_destroy ep @ tick_destroy tk @ ufd_destroy (sfd sg) @ xdp_destroy att"
  using no_session_simps(1) by (simp_all add: session_fds_def)

text \<open>The part after the pin, on all of its paths.\<close>

lemma session_attach_spec:
  assumes "env_ok env"
  shows "case session_attach env sk ix md h of
      Inl out \<Rightarrow> mset (o_closed out) = mset (o_opened out) \<and> o_code out \<in> {69, 77, 125} \<and>
        o_host out = snd (skeleton_destroy (e_libbpf env) sk h)
    | Inr (s, h', opened, closed) \<Rightarrow> mset opened = mset (closed @ session_fds s) \<and> s_skel s = sk \<and> h' = h"
proof -
  have fd: "-1 \<le> e_signalfd env" "-1 \<le> e_timerfd env" using assms by (simp_all add: env_ok_def)
  obtain ar ae att cl where at: "attach (e_strerror env) (e_prog_fd env) (e_link_create env) md (XdpAttach (sint ix)) = ((ar, ae), att, cl)"
    by (metis prod.exhaust)
  let ?s1 = "no_session\<lparr>s_skel := sk, s_attach := att\<rparr>"
  obtain sr sg cl1 where sg: "signals_init (e_procmask env) (e_signalfd env) (s_signals ?s1) = (sr, sg, cl1)"
    by (rule prod_cases3)
  obtain tr tk its cl2 where tk: "tick_init (e_timerfd env) (e_settime env) 2 TickTimer = (tr, tk, its, cl2)"
    by (rule prod_cases4)
  have tick: "s_tick (?s1\<lparr>s_signals := sg\<rparr>) = TickTimer" by (simp add: no_session_def)
  note fresh = attach_fresh[OF at] signals_fresh[OF sg fd(1)] tick_fresh[OF tk fd(2)]
  have ticks: "mset cl2 + mset (tick_destroy tk) = mset (if e_timerfd env = -1 then [] else [e_timerfd env])"
    using arg_cong[OF fresh(6), of mset] by (simp only: mset_append)
  have sg': "signals_init (e_procmask env) (e_signalfd env) (s_signals no_session) = (sr, sg, cl1)" using sg by simp
  have cond: "(e_procmask env = -1 \<or> e_signalfd env = -1) = (\<not> is_ok sr)" using fresh(5) by blast
  let ?run = "session_attach env sk ix md h"
  consider (noattach) "\<not> is_ok ar" | (nosig) "is_ok ar" "\<not> is_ok sr"
    | (notick) "is_ok ar" "is_ok sr" "\<not> is_ok tr \<or> \<not> e_ringbuf env"
    | (late) "is_ok ar" "is_ok sr" "is_ok tr" "e_ringbuf env" by blast
  then show ?thesis
  proof cases
    case noattach
    then show ?thesis using fresh by (simp add: session_attach_def at Let_def session_fds_built)
  next
    case nosig
    then have "?run = Inl (leave env (?s1\<lparr>s_signals := sg\<rparr>) [link_fd att] [] 125 h)"
      using fresh(1,3) by (simp add: session_attach_def at sg' cond Let_def)
    then show ?thesis using nosig fresh(2,4) by (simp add: session_fds_built)
  next
    case notick
    then have "?run = Inl (leave env (?s1\<lparr>s_signals := sg, s_tick := tk\<rparr>)
        ([link_fd att, e_signalfd env] @ (if e_timerfd env = -1 then [] else [e_timerfd env])) cl2 125 h)"
      using fresh(1,3) notick by (auto simp: session_attach_def at sg' cond tk tick[simplified] Let_def)
    then show ?thesis using notick fresh(2,4) ticks by (simp add: session_fds_built ac_simps)
  next
    case late
    let ?s = "?s1\<lparr>s_signals := sg, s_tick := tk, s_epoll := \<lparr>ufd_fd = e_epoll env\<rparr>\<rparr>"
    let ?op = "[link_fd att, e_signalfd env] @ (if e_timerfd env = -1 then [] else [e_timerfd env])"
    have "?run = (if \<not> ufd_is_valid \<lparr>ufd_fd = e_epoll env\<rparr> then Inl (leave env ?s ?op cl2 125 h)
        else Inr (?s, h, ?op @ [e_epoll env], cl2))"
      using fresh(1,3) late by (simp add: session_attach_def at sg' cond tk tick[simplified] Let_def)
    then show ?thesis
      using late fresh(2,4) ticks
      by (simp add: session_fds_built ufd_is_valid_def ufd_destroy_def close_if_open_def ac_simps)
  qed
qed

section \<open>The whole start\<close>

lemma rfind_char_tail: "c \<notin> set b \<Longrightarrow> rfind_char c (a @ c # b) = Some (length a)"
proof (induction a)
  case Nil
  then have "rfind_char c b = None" by (induction b) auto
  then show ?case by simp
qed simp

lemma owner_parent: "parent_dir (owner_pid_path_for_iface n) = owner_state_dir_for_iface n"
  using rfind_char_tail[of "CHR ''/''" "''owner.pid''" "owner_state_dir_for_iface n"]
  by (simp add: parent_dir_def owner_pid_path_for_iface_def)

lemma owner_path_ne [simp]: "owner_pid_path_for_iface n \<noteq> []" "pin_path_for_iface n \<noteq> []"
  by (simp_all add: owner_pid_path_for_iface_def pin_path_for_iface_def)

text \<open>A pin never changes which calls fail.\<close>

lemma pin_ok_fault:
  assumes "skeleton_pin lb proc pid path q sk h = (Ok u, sk', h')" "libbpf_law lb"
  shows "h_fault h' = h_fault h"
proof -
  have lib: "h_fault (snd (pin_maps lb p g)) = h_fault g" "h_fault (unpin_maps lb p g) = h_fault g" for p g
    using assms(2) by (simp_all add: libbpf_law_def)
  have par: "h_fault (snd (ensure_owner_pid_parent p g)) = h_fault g" for p g
    using keeps_owner_parent[of q g p] by (simp add: keeps_def)
  have wr: "h_fault (snd (write_owner_pid_file proc pid p g)) = h_fault g" for p g
    by (simp add: write_owner_pid_file_def write_file_def Let_def split: result.split)
  obtain h2 h3 h4 e where st: "h2 \<in> {snd (sys_unlink q (unpin_maps lb path (snd (sys_mkdir path h)))),
      unpin_maps lb path (snd (sys_mkdir path h)), snd (sys_mkdir path h)}"
    "pin_maps lb path h2 = (e, h3)" "ensure_owner_pid_parent q h3 = (Ok (), h4)" "write_owner_pid_file proc pid q h4 = (Ok (), h')"
    using assms(1) unfolding skeleton_pin_def Let_def
    by (auto split: if_split_asm prod.splits result.split_asm)
  have "h_fault h2 = h_fault h" using st(1) lib by auto
  moreover have "h_fault h3 = h_fault h2" using lib(1)[of path h2] st(2) by simp
  moreover have "h_fault h4 = h_fault h3" using par[of q h3] st(3) by simp
  moreover have "h_fault h' = h_fault h4" using wr[of q h4] st(4) by simp
  ultimately show ?thesis by simp
qed

lemma session_start_spec:
  assumes "env_ok env" "h_fault h ''unlink'' (owner_pid_path_for_iface n) = None"
  shows "case session_start env n sn w md h of
      Inl out \<Rightarrow> mset (o_closed out) = mset (o_opened out) \<and> o_code out \<in> {65, 69, 77, 125} \<and>
        (map_of (h_files (o_host out)) (owner_pid_path_for_iface n) = None \<or>
         map_of (h_files (o_host out)) (owner_pid_path_for_iface n) = map_of (h_files h) (owner_pid_path_for_iface n))
    | Inr (s, h', opened, closed) \<Rightarrow> mset opened = mset (closed @ session_fds s) \<and>
        s_skel s = \<lparr>skel = True, pinned_path = pin_path_for_iface n, owner_pid_path = owner_pid_path_for_iface n\<rparr> \<and>
        h_fault h' = h_fault h"
proof -
  let ?q = "owner_pid_path_for_iface n" and ?p = "pin_path_for_iface n"
  let ?sk = "\<lparr>skel = True, pinned_path = [], owner_pid_path = []\<rparr>"
  have law: "libbpf_law (e_libbpf env)" using assms(1) by (simp add: env_ok_def)
  have np: "parent_dir ?q \<noteq> ?p" using paths_differ[of n n] owner_parent by simp
  obtain r sk h1 where pin: "skeleton_pin (e_libbpf env) (e_proc env) (e_getpid env) ?p ?q ?sk h = (r, sk, h1)"
    by (rule prod_cases3)
  consider (early) "e_nametoindex env n = 0 \<or> e_open_errno env \<noteq> None \<or> e_load_ret env \<noteq> 0"
    | (late) "e_nametoindex env n \<noteq> 0" "e_open_errno env = None" "e_load_ret env = 0" by blast
  then show ?thesis
  proof cases
    case early
    then show ?thesis
      by (auto simp: session_start_def Let_def open_and_load_def split: option.split)
  next
    case late
    then have run: "session_start env n sn w md h =
        (case r of Err _ \<Rightarrow> Inl (leave env (no_session\<lparr>s_skel := sk\<rparr>) [] [] 69 h1)
         | Ok _ \<Rightarrow> session_attach env sk (e_nametoindex env n) md h1)"
      by (simp add: session_start_def Let_def open_and_load_def pin split: result.split)
    show ?thesis
    proof (cases r)
      case (Err e)
      with pin_err_keeps[OF pin[unfolded Err] law np assms(2)] run show ?thesis
        by (auto simp: keeps_def)
    next
      case (Ok u)
      have sk: "sk = \<lparr>skel = True, pinned_path = ?p, owner_pid_path = ?q\<rparr>"
        using pin[unfolded Ok] by (cases u) (auto elim: pin_ok)
      have f: "h_fault h1 = h_fault h" by (rule pin_ok_fault[OF pin[unfolded Ok] law])
      have gone: "map_of (h_files (snd (skeleton_destroy (e_libbpf env) sk h1))) ?q = None"
        by (rule destroy_owner_gone[OF law]) (simp_all add: sk f assms(2))
      show ?thesis
        using session_attach_spec[OF assms(1), where sk = sk and ix = "e_nametoindex env n" and md = md and h = h1] run Ok gone sk f
        by (auto split: sum.split_asm)
    qed
  qed
qed

lemma session_end_spec:
  assumes "env_ok env" "mset opened = mset (closed @ session_fds s)"
    and "s_skel s = \<lparr>skel = True, pinned_path = pin_path_for_iface n, owner_pid_path = owner_pid_path_for_iface n\<rparr>"
    and "h_fault h ''unlink'' (owner_pid_path_for_iface n) = None" "out = session_end env n (s, h, opened, closed)"
  shows "mset (o_closed out) = mset (o_opened out)" "o_code out = 0"
    "map_of (h_files (o_host out)) (owner_pid_path_for_iface n) = None"
proof -
  let ?q = "owner_pid_path_for_iface n" and ?p = "pin_path_for_iface n"
  let ?u = "skeleton_unpin (e_libbpf env) ?p (s_skel s) h"
  have "pinned_path (fst ?u) = []" by (simp add: skeleton_unpin_def assms(3) Let_def)
  then have "o_host out = snd ?u" by (simp add: assms(5) session_end_def case_prod_beta)
  moreover have "map_of (h_files (snd ?u)) ?q = None"
    using assms(1) by (intro unpin_owner_gone) (simp_all add: env_ok_def assms(3,4))
  ultimately show "map_of (h_files (o_host out)) ?q = None" by simp
  show "mset (o_closed out) = mset (o_opened out)" "o_code out = 0"
    using assms(2) by (simp_all add: assms(5) session_end_def case_prod_beta)
qed

text \<open>Start and end together, as both commands compose them.\<close>

lemma session_outcome:
  assumes "env_ok env" "h_fault h ''unlink'' (owner_pid_path_for_iface n) = None"
    and "out = (case session_start env n sn w md h of Inl o1 \<Rightarrow> o1 | Inr st \<Rightarrow> session_end env n st)"
  shows "mset (o_closed out) = mset (o_opened out) \<and> o_code out \<in> {0, 65, 69, 77, 125} \<and>
    (let left = map_of (h_files (o_host out)) (owner_pid_path_for_iface n) in
     (left = None \<or> left = map_of (h_files h) (owner_pid_path_for_iface n)) \<and> (o_code out = 0 \<longrightarrow> left = None))"
proof (cases "session_start env n sn w md h")
  case (Inl o1)
  with session_start_spec[OF assms(1,2), where sn = sn and w = w and md = md] assms(3) show ?thesis by (auto simp: Let_def)
next
  case (Inr st)
  obtain s h1 op cl where st: "st = (s, h1, op, cl)" by (rule prod_cases4)
  note spec = session_start_spec[OF assms(1,2), where sn = sn and w = w and md = md]
  have out: "out = session_end env n (s, h1, op, cl)" using assms(3) Inr st by simp
  have "h_fault h1 ''unlink'' (owner_pid_path_for_iface n) = None" using spec Inr st assms(2) by simp
  then show ?thesis using session_end_spec[OF assms(1) _ _ _ out] spec Inr st by (simp add: Let_def)
qed

section \<open>What is printed\<close>

text \<open>The record lists a session drains before it ends, and whether it ends.\<close>

fun batch_drains :: "(int \<Rightarrow> bool) \<Rightarrow> 't ep list \<Rightarrow> u8 list list list \<times> bool" where
  "batch_drains stop_on [] = ([], False)"
| "batch_drains stop_on (EpSignal got # es) =
     (if stop_on (read_signal got) then ([], True) else batch_drains stop_on es)"
| "batch_drains stop_on (EpRing recs # es) = (let (ds, b) = batch_drains stop_on es in (recs # ds, b))"
| "batch_drains stop_on (EpTick x # es) = batch_drains stop_on es"

fun loop_drains :: "(int \<Rightarrow> bool) \<Rightarrow> 't ep_wait list \<Rightarrow> u8 list list list \<times> bool" where
  "loop_drains stop_on [] = ([], False)"
| "loop_drains stop_on (Interrupted # ws) = loop_drains stop_on ws"
| "loop_drains stop_on (Failed # ws) = ([], True)"
| "loop_drains stop_on (Ready es # ws) =
     (let (ds, b) = batch_drains stop_on es in
      if b then (ds, True) else let (ds', b') = loop_drains stop_on ws in (ds @ ds', b'))"

definition delivered :: "nat \<Rightarrow> u8 list list list \<Rightarrow> kwatch_event list" where
  "delivered budget ds = concat (map (\<lambda>recs. take budget (events_of recs)) ds)"

definition rb_ready :: "'s ringbuf \<Rightarrow> (kwatch_event \<Rightarrow> 's \<Rightarrow> 's) \<Rightarrow> bool" where
  "rb_ready rb cb \<longleftrightarrow> rb_open rb \<and> rb_cb rb = Some cb"

lemma consume_ready:
  assumes "hands_over rc" "rb_ready rb cb" "budget \<noteq> 0"
  shows "\<exists>rb'. consume rc budget recs (rb, s) = (rb', fold cb (take (unat budget) (events_of recs)) s) \<and> rb_ready rb' cb"
  using consume_spec[OF assms(1), of rb cb _ budget recs s] assms(2,3)
  by (auto simp: rb_ready_def min_def)

lemma ep_batch_drains:
  assumes "hands_over rc" "budget \<noteq> 0"
  shows "rb_ready rb cb \<Longrightarrow> \<exists>rb'. ep_batch stop_on (consume rc budget) (\<lambda>_. Some) es (rb, s) =
      Some ((rb', fold cb (delivered (unat budget) (fst (batch_drains stop_on es))) s), snd (batch_drains stop_on es)) \<and>
    rb_ready rb' cb"
proof (induction es arbitrary: rb s)
  case (Cons e es)
  show ?case
  proof (cases e)
    case (EpRing recs)
    obtain rb1 where rb1: "consume rc budget recs (rb, s) = (rb1, fold cb (take (unat budget) (events_of recs)) s)"
      "rb_ready rb1 cb" using consume_ready[OF assms(1) Cons.prems assms(2)] by blast
    from Cons.IH[OF rb1(2)] show ?thesis by (simp add: EpRing rb1 delivered_def case_prod_beta)
  qed (use Cons in \<open>auto simp: delivered_def\<close>)
qed (simp add: delivered_def)

lemma ep_loop_drains:
  assumes "hands_over rc" "budget \<noteq> 0"
  shows "rb_ready rb cb \<Longrightarrow> \<exists>rb'. ep_loop stop_on (consume rc budget) (\<lambda>_. Some) (\<lambda>_. True) ws (rb, s) =
      Some ((rb', fold cb (delivered (unat budget) (fst (loop_drains stop_on ws))) s), snd (loop_drains stop_on ws)) \<and>
    rb_ready rb' cb"
proof (induction ws arbitrary: rb s)
  case (Cons w ws)
  show ?case
  proof (cases w)
    case (Ready es)
    obtain rb1 where rb1: "ep_batch stop_on (consume rc budget) (\<lambda>_. Some) es (rb, s) =
        Some ((rb1, fold cb (delivered (unat budget) (fst (batch_drains stop_on es))) s), snd (batch_drains stop_on es))"
      "rb_ready rb1 cb" using ep_batch_drains[OF assms Cons.prems] by blast
    from Cons.IH[OF rb1(2)] rb1 show ?thesis
      by (subst ep_loop.simps) (auto simp: Ready delivered_def case_prod_beta)
  next
    case Interrupted
    with Cons show ?thesis by (subst ep_loop.simps) simp
  next
    case Failed
    with Cons.prems show ?thesis by (subst ep_loop.simps) (simp add: delivered_def)
  qed
qed (subst ep_loop.simps, simp add: delivered_def)

lemma fold_run_cb:
  "fold (run_cb json now) evs out = out @
     map (\<lambda>i. format_event (evs ! i) (if json then Json else Text) (now (length out + i)) @ [CHR 0x0A]) [0..<length evs]"
proof (induction evs arbitrary: out)
  case (Cons e evs)
  show ?case
    by (simp only: fold_simps Cons.IH)
      (simp add: run_cb_def map_upt_Suc del: upt_Suc)
qed simp

section \<open>Invariants of the loop\<close>

fun batch_ticks :: "'t ep list \<Rightarrow> 't list" where
  "batch_ticks [] = []"
| "batch_ticks (EpTick x # es) = x # batch_ticks es"
| "batch_ticks (_ # es) = batch_ticks es"

fun loop_ticks :: "'t ep_wait list \<Rightarrow> 't list" where
  "loop_ticks [] = []"
| "loop_ticks (Ready es # ws) = batch_ticks es @ loop_ticks ws"
| "loop_ticks (_ # ws) = loop_ticks ws"

text \<open>The ticks a run of the loop serves, each with the state it meets.\<close>

fun batch_trace ::
    "(int \<Rightarrow> bool) \<Rightarrow> (u8 list list \<Rightarrow> 's \<Rightarrow> 's) \<Rightarrow> ('t \<Rightarrow> 's \<Rightarrow> 's option) \<Rightarrow> 't ep list \<Rightarrow> 's \<Rightarrow> ('t \<times> 's) list" where
  "batch_trace stop_on ring tick [] s = []"
| "batch_trace stop_on ring tick (EpSignal got # es) s =
     (if stop_on (read_signal got) then [] else batch_trace stop_on ring tick es s)"
| "batch_trace stop_on ring tick (EpRing recs # es) s = batch_trace stop_on ring tick es (ring recs s)"
| "batch_trace stop_on ring tick (EpTick x # es) s =
     (x, s) # (case tick x s of None \<Rightarrow> [] | Some s' \<Rightarrow> batch_trace stop_on ring tick es s')"

fun loop_trace ::
    "(int \<Rightarrow> bool) \<Rightarrow> (u8 list list \<Rightarrow> 's \<Rightarrow> 's) \<Rightarrow> ('t \<Rightarrow> 's \<Rightarrow> 's option) \<Rightarrow> ('s \<Rightarrow> bool) \<Rightarrow> 't ep_wait list \<Rightarrow> 's \<Rightarrow>
     ('t \<times> 's) list" where
  "loop_trace stop_on ring tick alive [] s = []"
| "loop_trace stop_on ring tick alive (Interrupted # ws) s = (if alive s then loop_trace stop_on ring tick alive ws s else [])"
| "loop_trace stop_on ring tick alive (Failed # ws) s = []"
| "loop_trace stop_on ring tick alive (Ready es # ws) s =
     (if alive s
      then batch_trace stop_on ring tick es s @
        (case ep_batch stop_on ring tick es s of Some (s', False) \<Rightarrow> loop_trace stop_on ring tick alive ws s' | _ \<Rightarrow> [])
      else [])"

lemma batch_trace_ticks: "(x, s') \<in> set (batch_trace stop_on ring tick es s) \<Longrightarrow> x \<in> set (batch_ticks es)"
proof (induction es arbitrary: s)
  case (Cons e es)
  then show ?case by (cases e) (auto split: if_split_asm option.split_asm)
qed simp

lemma loop_trace_ticks: "(x, s') \<in> set (loop_trace stop_on ring tick alive ws s) \<Longrightarrow> x \<in> set (loop_ticks ws)"
proof (induction ws arbitrary: s)
  case (Cons w ws)
  then show ?case by (cases w) (auto dest: batch_trace_ticks split: if_split_asm option.split_asm bool.split_asm)
qed simp

lemma ep_batch_trace_inv:
  assumes ring: "\<And>recs s. P s \<Longrightarrow> P (ring recs s)"
  shows "ep_batch stop_on ring tick es s = Some (s', b) \<Longrightarrow> P s \<Longrightarrow>
    (\<And>x s s'. (x, s) \<in> set (batch_trace stop_on ring tick es s0) \<Longrightarrow> P s \<Longrightarrow> tick x s = Some s' \<Longrightarrow> P s') \<Longrightarrow> s0 = s \<Longrightarrow> P s'"
proof (induction es arbitrary: s s0)
  case (Cons e es)
  show ?case
  proof (cases e)
    case (EpTick x)
    then obtain s1 where s1: "tick x s = Some s1" "ep_batch stop_on ring tick es s1 = Some (s', b)"
      using Cons.prems(1) by (auto split: option.split_asm)
    moreover have "P s1" using Cons.prems(2-) EpTick s1(1) by auto
    ultimately show ?thesis using Cons.IH[of s1 s1] Cons.prems(3,4) EpTick by auto
  qed (use Cons ring in \<open>auto split: if_split_asm\<close>)
qed simp

lemma ep_loop_trace_inv:
  assumes ring: "\<And>recs s. P s \<Longrightarrow> P (ring recs s)"
  shows "ep_loop stop_on ring tick alive ws s = Some (s', b) \<Longrightarrow> P s \<Longrightarrow>
    (\<And>x s1 s2. (x, s1) \<in> set (loop_trace stop_on ring tick alive ws s) \<Longrightarrow> P s1 \<Longrightarrow> tick x s1 = Some s2 \<Longrightarrow> P s2) \<Longrightarrow> P s'"
proof (induction ws arbitrary: s)
  case Nil
  then show ?case by (subst (asm) ep_loop.simps) (auto split: if_split_asm)
next
  case (Cons w ws)
  show ?case
  proof (cases "alive s \<and> (\<exists>es. w = Ready es)")
    case True
    then obtain es where es: "w = Ready es" by blast
    have run: "ep_loop stop_on ring tick alive (w # ws) s =
        (case ep_batch stop_on ring tick es s of None \<Rightarrow> None | Some (s1, True) \<Rightarrow> Some (s1, True)
         | Some (s1, False) \<Rightarrow> ep_loop stop_on ring tick alive ws s1)"
      using True es by (subst ep_loop.simps) simp
    then obtain s1 c where s1: "ep_batch stop_on ring tick es s = Some (s1, c)"
      using Cons.prems(1) by (auto split: option.split_asm)
    have "P s1" by (rule ep_batch_trace_inv[OF ring s1 Cons.prems(2) _ refl]) (use Cons.prems(3) es True in auto)
    then show ?thesis
      using Cons.IH[of s1] Cons.prems(1,3) run s1 es True by (cases c) auto
  next
    case False
    note run = Cons.prems(1)[unfolded ep_loop.simps[of stop_on ring tick alive "w # ws" s]]
    show ?thesis
      using run False Cons.IH[of s] Cons.prems(2,3) by (cases w) (auto split: if_split_asm)
  qed
qed

lemma ep_loop_inv:
  assumes ring: "\<And>recs s. P s \<Longrightarrow> P (ring recs s)"
    and "ep_loop stop_on ring tick alive ws s = Some (s', b)" "P s"
    and "\<And>x s s'. x \<in> set (loop_ticks ws) \<Longrightarrow> P s \<Longrightarrow> tick x s = Some s' \<Longrightarrow> P s'"
  shows "P s'"
  by (rule ep_loop_trace_inv[OF ring assms(2,3)]) (use loop_trace_ticks assms(4) in fast)+

section \<open>A session on a quiet machine\<close>

definition good_env :: start_env where
  "good_env = \<lparr>e_nametoindex = (\<lambda>_. 1), e_open_errno = None, e_rodata = True, e_load_ret = 0, e_libbpf = demo_libbpf,
     e_proc = demo_proc, e_getpid = 42, e_prog_fd = 3, e_link_create = (\<lambda>_. 7), e_strerror = (\<lambda>_. []), e_procmask = 0,
     e_signalfd = 8, e_timerfd = 9, e_settime = (\<lambda>_. 0), e_ringbuf = True, e_epoll = 10\<rparr>"

lemma parent_blacklist: "parent_dir (d @ ''/blacklist'') = d"
  using rfind_char_tail[of "CHR ''/''" "''blacklist''" d] by (simp add: parent_dir_def)

lemma good_env_ok: "env_ok good_env"
  using parent_blacklist
  by (auto simp: env_ok_def good_env_def libbpf_law_def demo_libbpf_def write_file_def update_conv')

lemma good_start: "\<exists>st. session_start good_env ''lo'' 100 w ''auto'' demo_host = Inr st"
proof -
  obtain sk h' where pin: "skeleton_pin demo_libbpf demo_proc 42 (pin_path_for_iface ''lo'') (owner_pid_path_for_iface ''lo'')
      \<lparr>skel = True, pinned_path = [], owner_pid_path = []\<rparr> demo_host = (Ok (), sk, h')"
    using demo_pinned by (auto simp: demo_skel_def)
  show ?thesis
    by (simp add: session_start_def good_env_def open_and_load_def Let_def pin session_attach_def attach_def
        XdpAttach_def xdp_detach_def try_modes_def try_mode_def no_session_def signals_init_def ufd_reset_def
        tick_init_def TickTimer_def ufd_is_valid_def is_open_fd_def)
qed

lemma signal_ends: "loop_drains run_stops [Ready [EpRing recs, EpSignal (Some 15)]] = ([recs], True)"
  by (simp add: run_stops_def read_signal_def SIGTERM_def)

section \<open>Properties\<close>

text \<open>
  Property C12. Nothing of a monitoring process outlives it: whichever way \<open>kwatch run\<close> returns,
  every descriptor it was given has been closed exactly once, and the owner file of the interface is gone
  or is the one that was there before; after a regular end it is gone. The exit status is 0, 64, 65, 69,
  77 or 125.
\<close>

theorem run_releases:
  assumes "env_ok env" "h_fault h ''unlink'' (owner_pid_path_for_iface (args ! 0)) = None"
    and "cmd_run env now rc globals args waits h = Some (out, lines)"
  shows "mset (o_closed out) = mset (o_opened out) \<and> o_code out \<in> {0, 64, 65, 69, 77, 125} \<and>
    (let left = map_of (h_files (o_host out)) (owner_pid_path_for_iface (args ! 0)) in
     (left = None \<or> left = map_of (h_files h) (owner_pid_path_for_iface (args ! 0))) \<and>
     (o_code out = 0 \<longrightarrow> left = None))"
proof (cases "length args = 1")
  case True
  let ?start = "session_start env (args ! 0) (g_sample_n globals) kDefaultSynWindowSeconds (g_xdp_mode globals) h"
  have "out = (case ?start of Inl o1 \<Rightarrow> o1 | Inr st \<Rightarrow> session_end env (args ! 0) st)"
    using assms(3) True by (auto simp: cmd_run_def Let_def split: sum.splits option.split_asm prod.split_asm bool.split_asm)
  from session_outcome[OF assms(1,2) this] show ?thesis by (auto simp: Let_def)
next
  case False
  then show ?thesis using assms(3) by (auto simp: cmd_run_def Let_def)
qed

theorem run_releases_witness:
  "\<exists>out lines. cmd_run good_env (\<lambda>_. ''t'') hand_all global_options0 [''lo''] [Failed] demo_host = Some (out, lines) \<and>
     mset (o_closed out) = mset (o_opened out)"
proof -
  have "\<exists>out lines. cmd_run good_env (\<lambda>_. ''t'') hand_all global_options0 [''lo''] [Failed] demo_host = Some (out, lines)"
    using good_start[of kDefaultSynWindowSeconds]
    by (auto simp: cmd_run_def global_options0_def run_loop_def Let_def ep_loop.simps)
  then obtain out lines where r: "cmd_run good_env (\<lambda>_. ''t'') hand_all global_options0 [''lo''] [Failed] demo_host = Some (out, lines)"
    by blast
  with run_releases[OF good_env_ok _ r] show ?thesis by (auto simp: demo_host_def)
qed



end
