(* ===== verification/KW_Top.thy ===== *)
theory KW_Top
  imports KW_App KW_Session "HOL-Library.Multiset"
begin

text \<open>
  The dashboard command, \<open>src/cli/commands/top.cpp\<close>: the snapshots it takes of the maps, the callback of
  the ring buffer, one tick of the loop and the command as a whole. The blacklist is part of the state;
  what the tick reads of the other maps, the clock, the key pressed and the size of the screen are the
  record \<open>tick_in\<close>. The walks over maps are the partial \<open>key_walk\<close>, so a tick may fail to return. The
  iteration order of \<open>std::unordered_map\<close> is that of the tracker's table.
\<close>

section \<open>Snapshots\<close>

definition kRecentEventCap :: nat where "kRecentEventCap = 50"

record firewall_meta =
  first_seen :: u64
  drop_baseline :: u64

definition firewall_id :: "lpm_key \<Rightarrow> u64" where
  "firewall_id k = push_bit 32 (ucast (fst k)) OR ucast (snd k)"

definition breakdown0 :: protocol_breakdown where
  "breakdown0 = \<lparr>pb_tcp = 0, pb_udp = 0, pb_icmp = 0, pb_other = 0, pb_dropped = 0\<rparr>"

definition count_protocol :: "u32 \<times> u64 \<Rightarrow> protocol_breakdown \<Rightarrow> protocol_breakdown" where
  "count_protocol kv b =
     (let (next_key, v) = kv in
      if next_key = 1 then b\<lparr>pb_icmp := pb_icmp b + v\<rparr>
      else if next_key = 6 then b\<lparr>pb_tcp := pb_tcp b + v\<rparr>
      else if next_key = 17 then b\<lparr>pb_udp := pb_udp b + v\<rparr>
      else if next_key = 0xFFFF then b\<lparr>pb_dropped := pb_dropped b + v\<rparr>
      else b\<lparr>pb_other := pb_other b + v\<rparr>)"

definition refresh_protocol_breakdown :: "(u32 option \<Rightarrow> u32 option) \<Rightarrow> (u32 \<rightharpoonup> u64) \<Rightarrow> protocol_breakdown option" where
  "refresh_protocol_breakdown nxt m =
     map_option (\<lambda>ks. fold count_protocol (concat (map (\<lambda>k. case m k of Some v \<Rightarrow> [(k, v)] | None \<Rightarrow> []) ks)) breakdown0)
       (key_walk nxt None [])"

text \<open>The comparison passed to \<open>std::sort\<close>, and the sorted range.\<close>

definition threat_before :: "threat_row \<Rightarrow> threat_row \<Rightarrow> bool" where
  "threat_before lhs rhs =
     (if tr_syn_count lhs \<noteq> tr_syn_count rhs then tr_syn_count lhs > tr_syn_count rhs else tr_ip lhs < tr_ip rhs)"

fun threat_insert :: "threat_row \<Rightarrow> threat_row list \<Rightarrow> threat_row list" where
  "threat_insert r [] = [r]"
| "threat_insert r (x # xs) = (if threat_before x r then x # threat_insert r xs else r # x # xs)"

definition threat_sort :: "threat_row list \<Rightarrow> threat_row list" where
  "threat_sort rows = foldr threat_insert rows []"

definition threat_of :: "u32 \<times> ip_stats \<Rightarrow> threat_row" where
  "threat_of e =
     \<lparr>tr_ip = fst e, tr_syn_count = ip_syn_count (snd e), tr_ack_count = ip_ack_count (snd e),
      tr_ttl = last_ttl (snd e), tr_flagged = is_flagged (snd e)\<rparr>"

definition refresh_threat_snapshot :: "flow_tracker \<Rightarrow> threat_row list" where
  "refresh_threat_snapshot tracker = threat_sort (map threat_of (get_ip_snapshot tracker))"

type_synonym meta_map = "u64 \<rightharpoonup> firewall_meta"

definition firewall_step ::
    "u64 \<Rightarrow> u64 \<Rightarrow> lpm_key \<Rightarrow> firewall_row list \<times> meta_map \<Rightarrow> firewall_row list \<times> meta_map" where
  "firewall_step now_ns dropped_total k st =
     (let (rows, metas) = st; id = firewall_id k;
          meta = (case metas id of Some x \<Rightarrow> x | None \<Rightarrow> \<lparr>first_seen = 0, drop_baseline = 0\<rparr>);
          meta = (if first_seen meta = 0 then \<lparr>first_seen = now_ns, drop_baseline = dropped_total\<rparr> else meta)
      in (rows @ [\<lparr>fr_prefixlen = fst k, fr_ip = snd k, fr_age_s = (now_ns - first_seen meta) div ns_per_s,
                   fr_drop_count = (if dropped_total \<ge> drop_baseline meta then dropped_total - drop_baseline meta else 0)\<rparr>],
          metas(id \<mapsto> meta)))"

definition refresh_firewall_snapshot ::
    "(lpm_key option \<Rightarrow> lpm_key option) \<Rightarrow> meta_map \<Rightarrow> u64 \<Rightarrow> u64 \<Rightarrow> (firewall_row list \<times> meta_map) option" where
  "refresh_firewall_snapshot nxt metas now_ns dropped_total =
     map_option (\<lambda>ks. fold (firewall_step now_ns dropped_total) ks ([], metas)) (key_walk nxt None [])"

section \<open>The loop\<close>

definition push_recent :: "kwatch_event list \<Rightarrow> kwatch_event \<Rightarrow> kwatch_event list" where
  "push_recent es e = (if length es = kRecentEventCap then drop 1 es else es) @ [e]"

type_synonym top_client = "flow_tracker \<times> kwatch_event list"

definition top_cb :: "kwatch_event \<Rightarrow> top_client \<Rightarrow> top_client" where
  "top_cb e c = (process_event e (fst c), push_recent (snd c) e)"

record top_state =
  t_client :: top_client
  t_ring :: "top_client ringbuf"
  t_pps_win :: pps_window
  t_pps_snapshot :: "u64 list"
  t_current_pps :: u64
  t_breakdown :: protocol_breakdown
  t_drop_count :: u64
  t_threats :: "threat_row list"
  t_rows :: "firewall_row list"
  t_metas :: meta_map
  t_last_total :: u64
  t_app :: app
  t_blacklist :: lpm_map
  t_screen :: "curses list"

record tick_in =
  i_ch :: int
  i_answer :: "string option"
  i_kernel_drops :: "u64 option"
  i_pkt_next :: "u32 option \<Rightarrow> u32 option"
  i_pkt_counts :: "u32 \<rightharpoonup> u64"
  i_flow_next :: "kwatch_flow_key option \<Rightarrow> kwatch_flow_key option"
  i_flows :: "kwatch_flow_key \<rightharpoonup> kwatch_flow_stats"
  i_flow_errno :: int
  i_now :: u64
  i_max_y :: int
  i_max_x :: int
  i_uptime :: nat

definition shown_of :: "top_state \<Rightarrow> shown" where
  "shown_of t =
     \<lparr>sh_pps_points = t_pps_snapshot t, sh_current_pps = t_current_pps t, sh_recent_events = snd (t_client t),
      sh_threat_rows = t_threats t, sh_firewall_rows = t_rows t, sh_breakdown = t_breakdown t,
      sh_error_count = error_count (t_ring t), sh_drop_count = t_drop_count t\<rparr>"

definition top_render :: "int \<Rightarrow> int \<Rightarrow> nat \<Rightarrow> top_state \<Rightarrow> top_state" where
  "top_render max_y max_x uptime t =
     (let (screen, a) = render (shown_of t) max_y max_x uptime (t_app t) in t\<lparr>t_screen := screen, t_app := a\<rparr>)"

text \<open>The packet rate of the last half second.\<close>

definition top_rate :: "protocol_breakdown \<Rightarrow> top_state \<Rightarrow> top_state" where
  "top_rate b t =
     (let current_total = protocol_total b;
          pps = (current_total - t_last_total t) * 2 in
      if t_last_total t > 0
      then t\<lparr>t_current_pps := pps, t_pps_win := pps_push (t_pps_win t) pps, t_last_total := current_total\<rparr>
      else t\<lparr>t_current_pps := 0, t_last_total := current_total\<rparr>)"

text \<open>The automatic blocks: the entries added and removed at a tick.\<close>

definition apply_blocks :: "lpm_ops \<Rightarrow> u32 list \<Rightarrow> u32 list \<Rightarrow> lpm_map \<Rightarrow> lpm_map" where
  "apply_blocks ops to_block to_unblock m =
     fold (\<lambda>ip m. snd (lpm_delete ops (32, ip) m)) to_unblock
       (fold (\<lambda>ip m. snd (lpm_update ops (32, ip) 1 m)) to_block m)"

definition top_blocks :: "lpm_ops \<Rightarrow> u64 \<Rightarrow> flow_map_entry list \<times> bool \<Rightarrow> top_state \<Rightarrow> top_state" where
  "top_blocks ops now_ns snap t =
     (let tr = fst (t_client t);
          tr = (if snd snap then process_flow_snapshot (fst snap) now_ns tr else tr);
          (to_block, tr) = tick_and_get_blocks now_ns tr;
          (to_unblock, tr) = get_expired_blocks now_ns tr
      in t\<lparr>t_client := (tr, snd (t_client t)), t_blacklist := apply_blocks ops to_block to_unblock (t_blacklist t)\<rparr>)"

definition top_tick :: "lpm_ops \<Rightarrow> tick_in \<Rightarrow> top_state \<Rightarrow> top_state option" where
  "top_tick ops i t =
     (let (a, m) = handle_input ops (t_rows t) (i_ch i) (i_answer i) (t_app t) (t_blacklist t);
          t = t\<lparr>t_app := a, t_blacklist := m,
                t_drop_count := dropped_count (t_ring t) + (case i_kernel_drops i of Some d \<Rightarrow> d | None \<Rightarrow> 0)\<rparr> in
      Option.bind (refresh_protocol_breakdown (i_pkt_next i) (i_pkt_counts i)) (\<lambda>b.
      let t = top_rate b (t\<lparr>t_breakdown := b\<rparr>) in
      Option.bind (flow_refresh (i_flow_next i) (i_flows i) (i_flow_errno i)) (\<lambda>snap.
      let t = top_blocks ops (i_now i) snap t;
          t = t\<lparr>t_pps_snapshot := copy_snapshot (t_pps_win t), t_threats := refresh_threat_snapshot (fst (t_client t))\<rparr> in
      map_option (\<lambda>(rows, metas). top_render (i_max_y i) (i_max_x i) (i_uptime i) (t\<lparr>t_rows := rows, t_metas := metas\<rparr>))
        (refresh_firewall_snapshot (lpm_next ops (t_blacklist t)) (t_metas t) (i_now i) (pb_dropped b)))))"

definition top_ring :: "(top_client ringbuf \<times> top_client) ring_consume \<Rightarrow> u8 list list \<Rightarrow> top_state \<Rightarrow> top_state" where
  "top_ring rc recs t =
     (let (rb, c) = consume rc 256 recs (t_ring t, t_client t) in t\<lparr>t_ring := rb, t_client := c\<rparr>)"

text \<open>\<open>SIGSEGV\<close>, \<open>SIGABRT\<close>, \<open>SIGILL\<close> and \<open>SIGFPE\<close> end the loop as well.\<close>

definition top_stops :: "int \<Rightarrow> bool" where
  "top_stops sig \<longleftrightarrow> sig = SIGINT \<or> sig = SIGTERM \<or> sig = 11 \<or> sig = 6 \<or> sig = 4 \<or> sig = 8"

definition top_loop ::
    "lpm_ops \<Rightarrow> (top_client ringbuf \<times> top_client) ring_consume \<Rightarrow> tick_in ep_wait list \<Rightarrow> top_state \<Rightarrow> (top_state \<times> bool) option" where
  "top_loop ops rc = ep_loop top_stops (top_ring rc) (top_tick ops) (\<lambda>t. running (t_app t))"

text \<open>The state when the loop is entered, the first snapshots and the first frame included.\<close>

definition top_init ::
    "lpm_ops \<Rightarrow> global_options \<Rightarrow> string \<Rightarrow> string \<Rightarrow> bool \<times> bool \<times> bool \<Rightarrow> tick_in \<Rightarrow> lpm_map \<Rightarrow> top_state option" where
  "top_init ops globals if_name actual_mode term i m =
     (let tracker = FlowTracker (g_syn_threshold globals) (g_syn_window globals) (g_auto_block globals) (g_auto_block_ttl globals);
          win = PpsWindow 60; (tty, colors, no_color) = term;
          a = app_init tty colors no_color (App if_name actual_mode) in
      Option.bind (refresh_protocol_breakdown (i_pkt_next i) (i_pkt_counts i)) (\<lambda>b.
      map_option (\<lambda>(rows, metas). top_render (i_max_y i) (i_max_x i) (i_uptime i)
          \<lparr>t_client = (tracker, []), t_ring = snd (ringbuf_init True top_cb RingBuf), t_pps_win = win,
           t_pps_snapshot = copy_snapshot win, t_current_pps = 0, t_breakdown = b, t_drop_count = 0,
           t_threats = refresh_threat_snapshot tracker, t_rows = rows, t_metas = metas, t_last_total = 0, t_app = a,
           t_blacklist = m, t_screen = []\<rparr>)
        (refresh_firewall_snapshot (lpm_next ops m) Map.empty (i_now i) (pb_dropped b))))"

text \<open>\<open>None\<close>: a walk over a map or the loop does not end.\<close>

definition cmd_top ::
    "start_env \<Rightarrow> lpm_ops \<Rightarrow> (top_client ringbuf \<times> top_client) ring_consume \<Rightarrow> bool \<times> bool \<times> bool \<Rightarrow> global_options \<Rightarrow>
     string list \<Rightarrow> tick_in \<Rightarrow> tick_in ep_wait list \<Rightarrow> host \<Rightarrow> outcome option" where
  "cmd_top env ops rc term globals args i waits h =
     (if length args \<noteq> 1 then Some (leave env no_session [] [] 64 h)
      else let if_name = args ! 0 in
      case session_start env if_name (g_sample_n globals) (g_syn_window globals) (g_xdp_mode globals) h of
        Inl out \<Rightarrow> Some out
      | Inr st \<Rightarrow>
          (let (fd, used_mode, err) = try_modes (e_link_create env) (g_xdp_mode globals) in
           Option.bind (top_init ops globals if_name used_mode term i Map.empty) (\<lambda>t.
           case top_loop ops rc waits t of
             Some (_, True) \<Rightarrow> Some (session_end env if_name st)
           | _ \<Rightarrow> None)))"

section \<open>The threat ranking\<close>

lemma threat_before_trans: "threat_before a b \<Longrightarrow> threat_before b c \<Longrightarrow> threat_before a c"
  by (auto simp: threat_before_def split: if_split_asm)

lemma threat_before_irrefl [simp]: "\<not> threat_before a a"
  by (simp add: threat_before_def)

lemma threat_before_asym: "threat_before a b \<Longrightarrow> \<not> threat_before b a"
  using threat_before_trans threat_before_irrefl by blast

lemma threat_before_total: "tr_ip a \<noteq> tr_ip b \<Longrightarrow> threat_before a b \<or> threat_before b a"
  by (auto simp: threat_before_def)

lemma mset_threat_insert [simp]: "mset (threat_insert r rows) = add_mset r (mset rows)"
  by (induction rows) auto

lemma mset_threat_sort [simp]: "mset (threat_sort rows) = mset rows"
  unfolding threat_sort_def by (induction rows) simp_all

lemma set_threat_insert [simp]: "set (threat_insert r rows) = insert r (set rows)"
  using mset_eq_setD[of "threat_insert r rows" "r # rows"] by simp

lemma sorted_threat_insert:
  "sorted_wrt threat_before rows \<Longrightarrow> \<forall>x \<in> set rows. tr_ip x \<noteq> tr_ip r \<Longrightarrow> sorted_wrt threat_before (threat_insert r rows)"
proof (induction rows)
  case (Cons x rows)
  show ?case
  proof (cases "threat_before x r")
    case False
    then have "threat_before r x" using Cons.prems(2) threat_before_total[of x r] by auto
    with Cons.prems(1) False show ?thesis by (auto intro: threat_before_trans)
  qed (use Cons in auto)
qed simp

lemma sorted_threat_sort: "distinct (map tr_ip rows) \<Longrightarrow> sorted_wrt threat_before (threat_sort rows)"
proof (induction rows)
  case (Cons r rows)
  have "set (threat_sort rows) = set rows" by (rule mset_eq_setD) simp
  with Cons have "sorted_wrt threat_before (threat_insert r (threat_sort rows))"
    by (intro sorted_threat_insert) (auto simp: image_iff)
  then show ?case by (simp add: threat_sort_def)
qed (simp add: threat_sort_def)

text \<open>There is only one sorted arrangement of the rows, so the result does not depend on the algorithm.\<close>

lemma sorted_threat_unique:
  "sorted_wrt threat_before xs \<Longrightarrow> sorted_wrt threat_before ys \<Longrightarrow> mset xs = mset ys \<Longrightarrow> xs = ys"
proof (induction xs arbitrary: ys)
  case (Cons x xs)
  obtain y ys' where ys: "ys = y # ys'" using Cons.prems(3) by (cases ys) auto
  have sets: "insert x (set xs) = insert y (set ys')"
    using mset_eq_setD[OF Cons.prems(3)] ys by simp
  have "x = y"
  proof (rule ccontr)
    assume "x \<noteq> y"
    then have "x \<in> set ys'" "y \<in> set xs" using sets by auto
    then have "threat_before y x" "threat_before x y" using Cons.prems(1,2) ys by auto
    then show False using threat_before_asym by blast
  qed
  with Cons.IH[of ys'] Cons.prems ys show ?case by simp
qed simp

lemma threat_ips: "map tr_ip (map threat_of tbl) = map fst tbl"
  by (simp add: threat_of_def comp_def)

section \<open>The recent events\<close>

interpretation recent: sliding_window "\<lambda>_. []" push_recent "\<lambda>w. w" "\<lambda>_. kRecentEventCap"
  "\<lambda>w. length w \<le> kRecentEventCap" "{kRecentEventCap}"
proof
  show "push_recent w x = drop (Suc (length w) - kRecentEventCap) (w @ [x])" if "length w \<le> kRecentEventCap" for w x
    using that by (cases "length w = kRecentEventCap") (auto simp: push_recent_def kRecentEventCap_def)
qed (auto simp: push_recent_def kRecentEventCap_def)

lemma fold_top_cb: "fold top_cb evs c = (fold process_event evs (fst c), foldl push_recent (snd c) evs)"
  by (induction evs arbitrary: c) (simp_all add: top_cb_def)

section \<open>The automatic blocks\<close>

lemma same_prefix_full: "same_prefix (32, a) q \<longleftrightarrow> q = (32, a)"
  by (cases q) (auto simp: same_prefix_def)

text \<open>The sources whose update the kernel refuses; \<open>cmd_top\<close> ignores the result of the call.\<close>

fun refused :: "lpm_ops \<Rightarrow> u32 list \<Rightarrow> lpm_map \<Rightarrow> u32 list" where
  "refused ops [] m = []"
| "refused ops (ip # ips) m =
     (let (ret, m') = lpm_update ops (32, ip) 1 m in (if ret = 0 then [] else [ip]) @ refused ops ips m')"

lemma refused_subset: "set (refused ops ips m) \<subseteq> set ips"
  by (induction ips arbitrary: m) (auto simp: case_prod_beta)

lemma update_full:
  assumes "lpm_map_law ops" "lpm_update ops (32, a) v m = (ret, m')"
  shows "dom m' = (if ret = 0 then insert (32, a) (dom m) else dom m)"
  using update_law[OF assms] by (auto simp: same_prefix_full split: if_split_asm)

lemma delete_full:
  assumes "lpm_map_law ops"
  shows "dom (snd (lpm_delete ops (32, a) m)) = dom m - {(32, a)}"
  using delete_law[OF assms prod.collapse[symmetric], of "(32, a)" m] by (auto simp: same_prefix_full)

lemma dom_updates:
  assumes "lpm_map_law ops"
  shows "distinct bs \<Longrightarrow> dom (fold (\<lambda>ip m. snd (lpm_update ops (32, ip) 1 m)) bs m) =
    dom m \<union> Pair 32 ` (set bs - set (refused ops bs m))"
proof (induction bs arbitrary: m)
  case (Cons ip bs)
  obtain ret m' where u: "lpm_update ops (32, ip) 1 m = (ret, m')" by (rule prod.exhaust)
  have "ip \<notin> set (refused ops bs m')" using refused_subset[of ops bs m'] Cons.prems by auto
  with Cons u update_full[OF assms u] show ?case by auto
qed simp

lemma dom_apply_blocks:
  assumes "lpm_map_law ops" "distinct bs"
  shows "dom (apply_blocks ops bs us m) = (dom m \<union> Pair 32 ` (set bs - set (refused ops bs m))) - Pair 32 ` set us"
proof -
  have d: "dom (fold (\<lambda>ip m. snd (lpm_delete ops (32, ip) m)) us m) = dom m - Pair 32 ` set us" for m
    using delete_full[OF assms(1)] by (induction us arbitrary: m) auto
  show ?thesis unfolding apply_blocks_def d dom_updates[OF assms] by simp
qed

text \<open>The sources a round asks the kernel to block.\<close>

definition wanted :: "u64 \<Rightarrow> flow_map_entry list \<times> bool \<Rightarrow> flow_tracker \<Rightarrow> u32 list" where
  "wanted now snap tr = fst (tick_and_get_blocks now (if snd snap then process_flow_snapshot (fst snap) now tr else tr))"

text \<open>One round of the tracker and the blacklist together.\<close>

lemma top_blocks_sync:
  assumes "lpm_map_law ops" "tracker_inv (fst (t_client t))" "t' = top_blocks ops now snap t"
    and "bs = wanted now snap (fst (t_client t))"
  obtains us where "blocked_ips (fst (t_client t')) = (blocked_ips (fst (t_client t)) \<union> set bs) - set us"
    "dom (t_blacklist t') = (dom (t_blacklist t) \<union> Pair 32 ` (set bs - set (refused ops bs (t_blacklist t)))) - Pair 32 ` set us"
    "tracker_inv (fst (t_client t'))"
proof -
  let ?tr = "if snd snap then process_flow_snapshot (fst snap) now (fst (t_client t)) else fst (t_client t)"
  obtain tr1 where b: "tick_and_get_blocks now ?tr = (bs, tr1)" using assms(4) by (simp add: wanted_def prod_eq_iff)
  obtain us tr2 where u: "get_expired_blocks now tr1 = (us, tr2)" by (rule prod.exhaust)
  have inv: "tracker_inv ?tr" "blocked_ips ?tr = blocked_ips (fst (t_client t))"
    using assms(2) tracker.refresh_blocked[OF assms(2)] by auto
  have t': "fst (t_client t') = tr2" "t_blacklist t' = apply_blocks ops bs us (t_blacklist t)"
    using b u by (simp_all add: assms(3) top_blocks_def Let_def)
  have "distinct bs" using tick_output_distinct[OF inv(1), of now] b by simp
  from tracker.round_blocked[OF inv(1) b u] inv(2) dom_apply_blocks[OF assms(1) this] show ?thesis
    by (intro that[of us]) (simp_all add: t')
qed

text \<open>The sources whose block the kernel refuses at a tick.\<close>

definition tick_refused :: "lpm_ops \<Rightarrow> tick_in \<Rightarrow> top_state \<Rightarrow> u32 list" where
  "tick_refused ops i t =
     (case flow_refresh (i_flow_next i) (i_flows i) (i_flow_errno i) of
        None \<Rightarrow> []
      | Some snap \<Rightarrow> refused ops (wanted (i_now i) snap (fst (t_client t)))
          (snd (handle_input ops (t_rows t) (i_ch i) (i_answer i) (t_app t) (t_blacklist t))))"

section \<open>One step of the loop\<close>

lemma top_render_simps [simp]:
  "t_client (top_render y x u t) = t_client t" "t_ring (top_render y x u t) = t_ring t"
  "t_pps_win (top_render y x u t) = t_pps_win t" "t_pps_snapshot (top_render y x u t) = t_pps_snapshot t"
  "t_threats (top_render y x u t) = t_threats t" "t_blacklist (top_render y x u t) = t_blacklist t"
  "t_app (top_render y x u t) = snd (render (shown_of t) y x u (t_app t))"
  by (simp_all add: top_render_def case_prod_beta)

lemma top_rate_simps [simp]:
  "t_client (top_rate b t) = t_client t" "t_ring (top_rate b t) = t_ring t" "t_app (top_rate b t) = t_app t"
  "t_blacklist (top_rate b t) = t_blacklist t"
  by (simp_all add: top_rate_def Let_def)

lemma top_blocks_simps [simp]:
  "t_ring (top_blocks ops now snap t) = t_ring t" "t_app (top_blocks ops now snap t) = t_app t"
  "t_pps_win (top_blocks ops now snap t) = t_pps_win t" "snd (t_client (top_blocks ops now snap t)) = snd (t_client t)"
  by (simp_all add: top_blocks_def Let_def case_prod_beta)

lemma top_tick_cases:
  assumes "top_tick ops i t = Some t'"
  obtains b snap t1 where "t1 = top_blocks ops (i_now i) snap (top_rate b (t\<lparr>
      t_app := fst (handle_input ops (t_rows t) (i_ch i) (i_answer i) (t_app t) (t_blacklist t)),
      t_blacklist := snd (handle_input ops (t_rows t) (i_ch i) (i_answer i) (t_app t) (t_blacklist t)),
      t_drop_count := dropped_count (t_ring t) + (case i_kernel_drops i of Some d \<Rightarrow> d | None \<Rightarrow> 0), t_breakdown := b\<rparr>))"
    "t_client t' = t_client t1" "t_ring t' = t_ring t" "t_pps_win t' = t_pps_win t1"
    "t_pps_snapshot t' = copy_snapshot (t_pps_win t1)" "t_threats t' = refresh_threat_snapshot (fst (t_client t1))"
    "t_blacklist t' = t_blacklist t1" "\<exists>sh. t_app t' = snd (render sh (i_max_y i) (i_max_x i) (i_uptime i) (t_app t1))"
    "flow_refresh (i_flow_next i) (i_flows i) (i_flow_errno i) = Some snap"
proof -
  let ?in = "handle_input ops (t_rows t) (i_ch i) (i_answer i) (t_app t) (t_blacklist t)"
  let ?t0 = "\<lambda>b. t\<lparr>t_app := fst ?in, t_blacklist := snd ?in,
      t_drop_count := dropped_count (t_ring t) + (case i_kernel_drops i of Some d \<Rightarrow> d | None \<Rightarrow> 0), t_breakdown := b\<rparr>"
  let ?t1 = "\<lambda>b snap. top_blocks ops (i_now i) snap (top_rate b (?t0 b))"
  let ?t2 = "\<lambda>b snap. (?t1 b snap)\<lparr>t_pps_snapshot := copy_snapshot (t_pps_win (?t1 b snap)),
      t_threats := refresh_threat_snapshot (fst (t_client (?t1 b snap)))\<rparr>"
  obtain b snap rm where s: "flow_refresh (i_flow_next i) (i_flows i) (i_flow_errno i) = Some snap"
    "t' = top_render (i_max_y i) (i_max_x i) (i_uptime i) ((?t2 b snap)\<lparr>t_rows := fst rm, t_metas := snd rm\<rparr>)"
    using assms unfolding top_tick_def Let_def case_prod_beta bind_eq_Some_conv map_option_eq_Some by metis
  show ?thesis by (rule that[OF refl, of snap b]) (simp_all add: s, blast)
qed

definition top_ok :: "top_state \<Rightarrow> bool" where
  "top_ok t \<longleftrightarrow> tracker_inv (fst (t_client t)) \<and> length (snd (t_client t)) \<le> kRecentEventCap \<and>
     rb_ready (t_ring t) top_cb \<and> pps_inv (t_pps_win t) \<and> length (window (t_pps_win t)) = 60 \<and>
     length (t_pps_snapshot t) \<le> 60 \<and> sorted_wrt threat_before (t_threats t) \<and> app_inv (t_app t)"

lemma sorted_threats: "tracker_inv tr \<Longrightarrow> sorted_wrt threat_before (refresh_threat_snapshot tr)"
  unfolding refresh_threat_snapshot_def get_ip_snapshot_def
  by (intro sorted_threat_sort) (simp only: threat_ips tracker_inv_def)

lemma copy_snapshot_le: "length (copy_snapshot w) \<le> length (window w)" if "pps_inv w"
  using that by (simp add: copy_snapshot_def pps_inv_def)

lemma top_rate_win:
  "pps_inv (t_pps_win t) \<Longrightarrow> pps_inv (t_pps_win (top_rate b t)) \<and>
     length (window (t_pps_win (top_rate b t))) = length (window (t_pps_win t))"
  using pps.inv_push pps.cap_push by (simp add: top_rate_def Let_def)

lemma top_blocks_inv: "tracker_inv (fst (t_client t)) \<Longrightarrow> tracker_inv (fst (t_client (top_blocks ops now snap t)))"
  by (auto simp: top_blocks_def Let_def case_prod_beta)

lemma top_ok_tick:
  assumes "top_ok t" "top_tick ops i t = Some t'"
  shows "top_ok t'"
  using assms(2)
proof (rule top_tick_cases)
  fix b snap t1
  let ?in = "handle_input ops (t_rows t) (i_ch i) (i_answer i) (t_app t) (t_blacklist t)"
  let ?t0 = "t\<lparr>t_app := fst ?in, t_blacklist := snd ?in,
      t_drop_count := dropped_count (t_ring t) + (case i_kernel_drops i of Some d \<Rightarrow> d | None \<Rightarrow> 0), t_breakdown := b\<rparr>"
  assume t1: "t1 = top_blocks ops (i_now i) snap (top_rate b ?t0)" and fields:
    "t_client t' = t_client t1" "t_ring t' = t_ring t" "t_pps_win t' = t_pps_win t1"
    "t_pps_snapshot t' = copy_snapshot (t_pps_win t1)" "t_threats t' = refresh_threat_snapshot (fst (t_client t1))"
    "\<exists>sh. t_app t' = snd (render sh (i_max_y i) (i_max_x i) (i_uptime i) (t_app t1))"
  have inv: "tracker_inv (fst (t_client t1))"
    unfolding t1 by (rule top_blocks_inv) (use assms(1) in \<open>simp add: top_ok_def\<close>)
  have app: "app_inv (t_app t1)" using assms(1) app_inv_key by (simp add: t1 top_ok_def)
  have win: "pps_inv (t_pps_win t1)" "length (window (t_pps_win t1)) = 60"
    using top_rate_win[of ?t0 b] assms(1) by (simp_all add: t1 top_ok_def)
  have "length (snd (t_client t1)) \<le> kRecentEventCap" using assms(1) by (simp add: t1 top_ok_def)
  then show "top_ok t'"
    using assms(1) inv app win sorted_threats[OF inv] copy_snapshot_le[OF win(1)] fields app_inv_frame
    by (auto simp: top_ok_def)
qed

lemma top_ring_client:
  assumes "hands_over rc" "rb_ready (t_ring t) top_cb"
  obtains rb where "top_ring rc recs t =
      t\<lparr>t_ring := rb, t_client := fold top_cb (take 256 (events_of recs)) (t_client t)\<rparr>" "rb_ready rb top_cb"
proof -
  obtain rb where rb: "consume rc 256 recs (t_ring t, t_client t) = (rb, fold top_cb (take (unat (256 :: u64)) (events_of recs)) (t_client t))"
    "rb_ready rb top_cb" using consume_ready[OF assms, of 256 recs "t_client t"] by auto
  then show ?thesis by (intro that[of rb]) (simp_all add: top_ring_def)
qed

lemma fold_process_event:
  "tracker_inv tr \<Longrightarrow> tracker_inv (fold process_event evs tr) \<and> blocked_ips (fold process_event evs tr) = blocked_ips tr"
  by (induction evs arbitrary: tr) (simp_all add: tracker_inv_process_event)

lemma foldl_push_recent: "length es \<le> kRecentEventCap \<Longrightarrow> length (foldl push_recent es evs) \<le> kRecentEventCap"
  using recent.inv_push by (induction evs arbitrary: es) auto

lemma top_ok_ring:
  assumes "top_ok t" "hands_over rc"
  shows "top_ok (top_ring rc recs t)" "blocked_ips (fst (t_client (top_ring rc recs t))) = blocked_ips (fst (t_client t))"
    "t_blacklist (top_ring rc recs t) = t_blacklist t"
proof -
  obtain rb where rb: "top_ring rc recs t = t\<lparr>t_ring := rb, t_client := fold top_cb (take 256 (events_of recs)) (t_client t)\<rparr>"
    "rb_ready rb top_cb" by (rule top_ring_client[OF assms(2)]) (use assms(1) in \<open>auto simp: top_ok_def\<close>)
  show "top_ok (top_ring rc recs t)" "blocked_ips (fst (t_client (top_ring rc recs t))) = blocked_ips (fst (t_client t))"
    "t_blacklist (top_ring rc recs t) = t_blacklist t"
    using assms(1) rb fold_process_event foldl_push_recent by (simp_all add: top_ok_def fold_top_cb)
qed

section \<open>Runs of the loop\<close>

lemma top_init_fields:
  assumes "top_init ops globals n md term i m = Some t"
  shows "fst (t_client t) = FlowTracker (g_syn_threshold globals) (g_syn_window globals) (g_auto_block globals) (g_auto_block_ttl globals)"
    "snd (t_client t) = []" "t_blacklist t = m" "top_ok t"
proof -
  let ?tr = "FlowTracker (g_syn_threshold globals) (g_syn_window globals) (g_auto_block globals) (g_auto_block_ttl globals)"
  obtain tty colors no_color where tm: "term = (tty, colors, no_color)" by (rule prod_cases3)
  let ?a = "app_init tty colors no_color (App n md)"
  obtain b rm where t: "t = top_render (i_max_y i) (i_max_x i) (i_uptime i)
      \<lparr>t_client = (?tr, []), t_ring = snd (ringbuf_init True top_cb RingBuf), t_pps_win = PpsWindow 60,
       t_pps_snapshot = copy_snapshot (PpsWindow 60), t_current_pps = 0, t_breakdown = b, t_drop_count = 0,
       t_threats = refresh_threat_snapshot ?tr, t_rows = fst rm, t_metas = snd rm, t_last_total = 0, t_app = ?a,
       t_blacklist = m, t_screen = []\<rparr>"
    using assms unfolding top_init_def Let_def tm case_prod_beta bind_eq_Some_conv map_option_eq_Some fst_conv snd_conv by blast
  show "fst (t_client t) = ?tr" "snd (t_client t) = []" "t_blacklist t = m" by (simp_all add: t)
  have "app_inv ?a" using app_inv_new[of n md] by (simp add: app_init_def app_inv_def)
  moreover have "pps_inv (PpsWindow 60)" "length (window (PpsWindow 60)) = 60"
    using pps.inv_new[of 60] by (simp_all add: PpsWindow_def)
  ultimately show "top_ok t"
    using copy_snapshot_le[of "PpsWindow 60"] sorted_threats[OF tracker_inv_new] app_inv_frame
    by (simp add: t top_ok_def rb_ready_def ringbuf_init_def Let_def)
qed

text \<open>A key other than \<open>d\<close> removes no single address from the blacklist, and only \<open>a\<close> and \<open>d\<close> edit it.\<close>

lemma update_keeps_full:
  assumes "lpm_map_law ops" "(32, ip) \<in> dom m"
  shows "(32, ip) \<in> dom (snd (lpm_update ops k v m))"
proof -
  have "same_prefix k (32, ip) \<Longrightarrow> k = (32, ip)" by (cases k) (auto simp: same_prefix_def)
  then show ?thesis
    using update_law[OF assms(1) prod.collapse[symmetric], of k v m] assms(2) by (auto split: if_split_asm)
qed

definition edits :: "int \<Rightarrow> bool" where
  "edits ch \<longleftrightarrow> pressed ch CHR ''a'' CHR ''A''"

definition deletes :: "int \<Rightarrow> bool" where
  "deletes ch \<longleftrightarrow> pressed ch CHR ''d'' CHR ''D''"

lemma handle_input_blacklist:
  assumes "\<not> deletes ch"
  shows "lpm_map_law ops \<Longrightarrow> (32, ip) \<in> dom m \<Longrightarrow> (32, ip) \<in> dom (snd (handle_input ops rows ch answer a m))"
    and "\<not> edits ch \<Longrightarrow> snd (handle_input ops rows ch answer a m) = m"
proof -
  have map_cases: "snd (handle_input ops rows ch answer a m) = m \<or>
      edits ch \<and> (\<exists>k. snd (handle_input ops rows ch answer a m) = snd (lpm_update ops k 1 m))"
    using assms by (auto simp: handle_input_def firewall_keys_def deletes_def edits_def Let_def
        simp del: split_paired_Ex split_paired_All split: result.split)
  then show "lpm_map_law ops \<Longrightarrow> (32, ip) \<in> dom m \<Longrightarrow> (32, ip) \<in> dom (snd (handle_input ops rows ch answer a m))"
    using update_keeps_full[of ops ip m] by metis
  show "\<not> edits ch \<Longrightarrow> snd (handle_input ops rows ch answer a m) = m" using map_cases by blast
qed

text \<open>
  The agreement of the tracker and the blacklist, up to a set of sources the kernel has refused to block.
\<close>

definition synced :: "u32 set \<Rightarrow> bool \<Rightarrow> top_state \<Rightarrow> bool" where
  "synced R exact t \<longleftrightarrow> Pair 32 ` (blocked_ips (fst (t_client t)) - R) \<subseteq> dom (t_blacklist t) \<and>
     (exact \<longrightarrow> dom (t_blacklist t) \<subseteq> Pair 32 ` blocked_ips (fst (t_client t)))"

lemma pair_image_sets:
  "Pair c ` (A - R) \<subseteq> D \<Longrightarrow> F \<subseteq> R \<Longrightarrow> Pair c ` ((A \<union> B - C) - R) \<subseteq> (D \<union> Pair c ` (B - F)) - Pair c ` C"
  "D \<subseteq> Pair c ` A \<Longrightarrow> (D \<union> Pair c ` (B - F)) - Pair c ` C \<subseteq> Pair c ` (A \<union> B - C)"
  by auto

lemma synced_tick:
  assumes "lpm_map_law ops" "\<not> deletes (i_ch i)" "exact \<longrightarrow> \<not> edits (i_ch i)" "set (tick_refused ops i t) \<subseteq> R"
    and "top_ok t" "synced R exact t" "top_tick ops i t = Some t'"
  shows "synced R exact t'"
  using assms(7)
proof (rule top_tick_cases)
  fix b snap t1
  let ?in = "handle_input ops (t_rows t) (i_ch i) (i_answer i) (t_app t) (t_blacklist t)"
  let ?t0 = "top_rate b (t\<lparr>t_app := fst ?in, t_blacklist := snd ?in,
      t_drop_count := dropped_count (t_ring t) + (case i_kernel_drops i of Some d \<Rightarrow> d | None \<Rightarrow> 0), t_breakdown := b\<rparr>)"
  let ?bs = "wanted (i_now i) snap (fst (t_client ?t0))"
  assume t1: "t1 = top_blocks ops (i_now i) snap ?t0" and fields: "t_client t' = t_client t1" "t_blacklist t' = t_blacklist t1"
    and snap: "flow_refresh (i_flow_next i) (i_flows i) (i_flow_errno i) = Some snap"
  have inv: "tracker_inv (fst (t_client ?t0))" using assms(5) by (simp add: top_ok_def)
  obtain us where r: "blocked_ips (fst (t_client t1)) = (blocked_ips (fst (t_client ?t0)) \<union> set ?bs) - set us"
    "dom (t_blacklist t1) = (dom (t_blacklist ?t0) \<union> Pair 32 ` (set ?bs - set (refused ops ?bs (t_blacklist ?t0)))) - Pair 32 ` set us"
    by (rule top_blocks_sync[OF assms(1) inv t1 refl])
  have ref: "set (refused ops ?bs (t_blacklist ?t0)) \<subseteq> R" using assms(4) snap by (simp add: tick_refused_def)
  have bl: "(32, ip) \<in> dom (t_blacklist t) \<Longrightarrow> (32, ip) \<in> dom (snd ?in)" "exact \<Longrightarrow> snd ?in = t_blacklist t" for ip
    using handle_input_blacklist[OF assms(2)] assms(1,3) by blast+
  have t0: "t_client ?t0 = t_client t" "t_blacklist ?t0 = snd ?in" by simp_all
  have "(32, ip) \<in> dom (t_blacklist t)" if "ip \<in> blocked_ips (fst (t_client t)) - R" for ip
    using assms(6) that unfolding synced_def by blast
  then have s: "Pair 32 ` (blocked_ips (fst (t_client ?t0)) - R) \<subseteq> dom (t_blacklist ?t0)"
    "exact \<Longrightarrow> dom (t_blacklist ?t0) \<subseteq> Pair 32 ` blocked_ips (fst (t_client ?t0))"
    unfolding t0 using bl(1) bl(2)[THEN arg_cong[of _ _ dom]] assms(6)[unfolded synced_def] by (blast, metis)
  show "synced R exact t'" unfolding synced_def fields r
    by (intro conjI impI pair_image_sets(1)[OF s(1) ref] pair_image_sets(2)[OF s(2)])
qed

text \<open>The ticks of a session of the dashboard, each with the state it meets.\<close>

definition top_trace ::
    "lpm_ops \<Rightarrow> (top_client ringbuf \<times> top_client) ring_consume \<Rightarrow> tick_in ep_wait list \<Rightarrow> top_state \<Rightarrow> (tick_in \<times> top_state) list" where
  "top_trace ops rc = loop_trace top_stops (top_ring rc) (top_tick ops) (\<lambda>t. running (t_app t))"

lemma synced_run:
  assumes "lpm_map_law ops" "hands_over rc" "top_init ops globals n md term i Map.empty = Some t0"
    and "top_loop ops rc waits t0 = Some (t, ended)" "\<forall>x \<in> set (loop_ticks waits). \<not> deletes (i_ch x)"
    and "exact \<longrightarrow> (\<forall>x \<in> set (loop_ticks waits). \<not> edits (i_ch x))"
    and "\<And>x s. (x, s) \<in> set (top_trace ops rc waits t0) \<Longrightarrow> set (tick_refused ops x s) \<subseteq> R"
  shows "synced R exact t"
proof -
  have "top_ok t \<and> synced R exact t"
  proof (rule ep_loop_trace_inv[where P = "\<lambda>s. top_ok s \<and> synced R exact s", OF _ assms(4)[unfolded top_loop_def]])
    show "top_ok (top_ring rc recs s) \<and> synced R exact (top_ring rc recs s)" if "top_ok s \<and> synced R exact s" for recs s
      using that top_ok_ring[OF _ assms(2)] by (simp add: synced_def)
    show "top_ok t0 \<and> synced R exact t0"
      using top_init_fields[OF assms(3)] by (auto simp: synced_def blocked_ips_def FlowTracker_def)
    show "top_ok s2 \<and> synced R exact s2"
      if "(x, s1) \<in> set (loop_trace top_stops (top_ring rc) (top_tick ops) (\<lambda>t. running (t_app t)) waits t0)"
        "top_ok s1 \<and> synced R exact s1" "top_tick ops x s1 = Some s2" for x s1 s2
    proof -
      have "x \<in> set (loop_ticks waits)" using that(1) by (rule loop_trace_ticks)
      moreover have "set (tick_refused ops x s1) \<subseteq> R" using assms(7) that(1) by (simp add: top_trace_def)
      ultimately show ?thesis using that(2,3) assms(5,6) top_ok_tick synced_tick[OF assms(1)] by blast
    qed
  qed
  then show ?thesis ..
qed

section \<open>A session with a SYN flood\<close>

definition flood_key :: kwatch_flow_key where
  "flood_key = \<lparr>fk_src_ip = 0x0100000A, fk_dst_ip = 0x0200000A, fk_sport = 1024, fk_dport = 80, fk_protocol = 6\<rparr>"

definition flood_stats :: kwatch_flow_stats where
  "flood_stats = \<lparr>syn_count = 200, ack_count = 0, first_seen_ns = 1, last_seen_ns = 5\<rparr>"

definition quiet_in :: tick_in where
  "quiet_in = \<lparr>i_ch = -1, i_answer = None, i_kernel_drops = Some 0, i_pkt_next = (\<lambda>_. None), i_pkt_counts = Map.empty,
     i_flow_next = (\<lambda>_. None), i_flows = Map.empty, i_flow_errno = 2, i_now = 5, i_max_y = 24, i_max_x = 80, i_uptime = 0\<rparr>"

definition flood_in :: tick_in where
  "flood_in = quiet_in\<lparr>i_flow_next := one_next flood_key, i_flows := [flood_key \<mapsto> flood_stats]\<rparr>"

definition blocking :: global_options where
  "blocking = global_options0\<lparr>g_auto_block := True\<rparr>"

abbreviation quiet_ops :: lpm_ops where
  "quiet_ops \<equiv> ref_ops (\<lambda>_ _. None)"

lemma empty_walk: "key_walk (\<lambda>_. None) None [] = Some []"
  by (subst key_walk.simps) simp

lemma quiet_init: "\<exists>t0. top_init quiet_ops blocking ''lo'' ''skb'' (True, True, True) quiet_in Map.empty = Some t0"
  by (simp add: top_init_def refresh_protocol_breakdown_def refresh_firewall_snapshot_def quiet_in_def empty_walk Let_def
      ref_ops_def)

text \<open>A reference map with room refuses nothing.\<close>

lemma refused_room:
  "finite (dom m) \<Longrightarrow> card (dom m) + length bs \<le> blacklist_max \<Longrightarrow> refused (ref_ops nxt) bs m = []"
proof (induction bs arbitrary: m)
  case (Cons ip bs)
  obtain ret m' where u: "lpm_update (ref_ops nxt) (32, ip) 1 m = (ret, m')" by (rule prod.exhaust)
  have "fst (lpm_update (ref_ops nxt) (32, ip) 1 m) = 0" using Cons.prems(2) by (intro ref_update_room) simp_all
  then have ret: "ret = 0" by (simp add: u)
  then have "dom m' = insert (32, ip) (dom m)" using update_full[OF ref_ops_law u] by simp
  with Cons.prems have "finite (dom m')" "card (dom m') + length bs \<le> blacklist_max"
    by (auto simp: card_insert_if)
  from Cons.IH[OF this] show ?case by (simp add: u ret)
qed simp

lemma flood_snapshot:
  "flow_refresh (i_flow_next flood_in) (i_flows flood_in) (i_flow_errno flood_in) =
     Some ([\<lparr>fe_key = flood_key, fe_stats = flood_stats\<rparr>], True)"
  by (simp add: flood_in_def quiet_in_def flow_refresh_def key_walk_all[OF enumerates_one] ENOENT_def)

lemma flood_tick: "\<exists>t. top_tick quiet_ops flood_in t0 = Some t"
proof -
  have q: "refresh_protocol_breakdown (i_pkt_next flood_in) (i_pkt_counts flood_in) = Some breakdown0"
    by (simp add: refresh_protocol_breakdown_def flood_in_def quiet_in_def empty_walk)
  show ?thesis unfolding top_tick_def Let_def flood_snapshot q
    by (simp add: case_prod_beta refresh_firewall_snapshot_def ref_ops_def empty_walk)
qed

lemma flood_blocked:
  "fst (t_client t) = FlowTracker 100 10 True 300 \<Longrightarrow>
     0x0100000A \<in> blocked_ips (fst (t_client (top_blocks quiet_ops 5 ([\<lparr>fe_key = flood_key, fe_stats = flood_stats\<rparr>], True) t)))"
  by (simp add: top_blocks_def FlowTracker_def process_flow_snapshot_def aggregate_step_def entry_skipped_def
      flood_key_def flood_stats_def ns_per_s_def next_generation_def apply_aggregate_def merge_aggregate_def stats_at_def
      ip_stats0_def unmatched_syns_def reset_stale_def tick_and_get_blocks_def to_be_blocked_def evict_idle_def
      kMaxFlows_def kMaxIpStats_def get_expired_blocks_def block_expired_def blocked_ips_def Let_def)

lemma i_now_flood: "i_now flood_in = 5"
  by (simp add: flood_in_def quiet_in_def)

lemma flood_wanted:
  "wanted 5 ([\<lparr>fe_key = flood_key, fe_stats = flood_stats\<rparr>], True) (FlowTracker 100 10 True 300) = [0x0100000A]"
  by (simp add: wanted_def FlowTracker_def process_flow_snapshot_def aggregate_step_def entry_skipped_def
      flood_key_def flood_stats_def ns_per_s_def next_generation_def apply_aggregate_def merge_aggregate_def stats_at_def
      ip_stats0_def unmatched_syns_def reset_stale_def tick_and_get_blocks_def to_be_blocked_def evict_idle_def
      kMaxFlows_def kMaxIpStats_def Let_def)

lemma flood_accepted:
  assumes "fst (t_client t) = FlowTracker 100 10 True 300" "t_blacklist t = Map.empty"
  shows "tick_refused quiet_ops flood_in t = []"
proof -
  have "snd (handle_input quiet_ops (t_rows t) (i_ch flood_in) (i_answer flood_in) (t_app t) (t_blacklist t)) = Map.empty"
    unfolding assms(2) by (rule handle_input_blacklist(2)) (simp_all add: flood_in_def quiet_in_def deletes_def edits_def pressed_def)
  moreover have "refused quiet_ops [0x0100000A] Map.empty = []" by (rule refused_room) (simp_all add: blacklist_max_def)
  ultimately show ?thesis by (simp add: tick_refused_def flood_snapshot assms(1) flood_wanted i_now_flood del: refused.simps)
qed

lemma flood_run:
  assumes "top_init quiet_ops blocking ''lo'' ''skb'' (True, True, True) quiet_in Map.empty = Some t0"
  obtains t where "top_loop quiet_ops hand_all [Ready [EpTick flood_in]] t0 = Some (t, \<not> running (t_app t))"
    "0x0100000A \<in> blocked_ips (fst (t_client t))"
    "top_trace quiet_ops hand_all [Ready [EpTick flood_in]] t0 = [(flood_in, t0)]"
proof -
  obtain t where tick: "top_tick quiet_ops flood_in t0 = Some t" using flood_tick by blast
  have run: "running (t_app t0)"
    using assms by (auto simp: top_init_def quiet_in_def refresh_protocol_breakdown_def refresh_firewall_snapshot_def empty_walk
        Let_def ref_ops_def app_init_def App_def render_def)
  have "top_loop quiet_ops hand_all [Ready [EpTick flood_in]] t0 = Some (t, \<not> running (t_app t))"
    unfolding top_loop_def by (simp add: ep_loop.simps run tick)
  moreover have "0x0100000A \<in> blocked_ips (fst (t_client t))"
    using tick
  proof (rule top_tick_cases)
    fix b snap t1
    let ?in = "handle_input quiet_ops (t_rows t0) (i_ch flood_in) (i_answer flood_in) (t_app t0) (t_blacklist t0)"
    let ?t0 = "top_rate b (t0\<lparr>t_app := fst ?in, t_blacklist := snd ?in,
        t_drop_count := dropped_count (t_ring t0) + (case i_kernel_drops flood_in of Some d \<Rightarrow> d | None \<Rightarrow> 0), t_breakdown := b\<rparr>)"
    assume t1: "t1 = top_blocks quiet_ops (i_now flood_in) snap ?t0" "t_client t = t_client t1"
      "flow_refresh (i_flow_next flood_in) (i_flows flood_in) (i_flow_errno flood_in) = Some snap"
    have "fst (t_client ?t0) = FlowTracker 100 10 True 300"
      using top_init_fields(1)[OF assms] by (simp add: blocking_def global_options0_def)
    from flood_blocked[OF this] t1 flood_snapshot show ?thesis by (simp add: flood_in_def quiet_in_def)
  qed
  moreover have "top_trace quiet_ops hand_all [Ready [EpTick flood_in]] t0 = [(flood_in, t0)]"
    by (simp add: top_trace_def run tick)
  ultimately show ?thesis by (rule that)
qed

section \<open>Properties\<close>

text \<open>
  Property C26. The state of the dashboard is well formed at every moment of a session: the tracker's
  table has one entry per source, at most 50 recent events are held, the rate window has 60 places and the
  displayed rates fit it, the threat rows are ranked, the selection of the firewall view is not negative
  and no demo was started with the safety override.
\<close>

theorem top_state_ok:
  assumes "hands_over rc" "top_init ops globals n md term i m = Some t0" "top_loop ops rc waits t0 = Some (t, ended)"
  shows "top_ok t"
  by (rule ep_loop_inv[OF _ assms(3)[unfolded top_loop_def]])
    (use top_init_fields(4)[OF assms(2)] top_ok_ring(1)[OF _ assms(1)] top_ok_tick in auto)

theorem top_state_ok_witness:
  "\<exists>t0 t ended. top_init quiet_ops blocking ''lo'' ''skb'' (True, True, True) quiet_in Map.empty = Some t0 \<and>
     top_loop quiet_ops hand_all [Ready [EpTick flood_in]] t0 = Some (t, ended) \<and> top_ok t"
proof -
  obtain t0 where t0: "top_init quiet_ops blocking ''lo'' ''skb'' (True, True, True) quiet_in Map.empty = Some t0"
    using quiet_init by blast
  obtain t where t: "top_loop quiet_ops hand_all [Ready [EpTick flood_in]] t0 = Some (t, \<not> running (t_app t))"
    by (rule flood_run[OF t0])
  from t0 t top_state_ok[OF hands_over_all t0 t] show ?thesis by blast
qed

text \<open>
  Property C5. The kernel's blacklist follows the tracker. In a session in which the user
  deletes no entry in the firewall view, every source the tracker holds as blocked is in the blacklist as
  a single address, unless the kernel has refused the update at some tick of the session (the map has 1024
  entries at most, and the command ignores the result of the call). If the user adds no entry either, the
  blacklist holds nothing but addresses the tracker holds as blocked.
\<close>

theorem auto_block_synced:
  assumes "lpm_map_law ops" "hands_over rc" "top_init ops globals n md term i Map.empty = Some t0"
    and "top_loop ops rc waits t0 = Some (t, ended)" "\<forall>x \<in> set (loop_ticks waits). \<not> deletes (i_ch x)"
  shows "(\<forall>ip \<in> blocked_ips (fst (t_client t)). (32, ip) \<in> dom (t_blacklist t) \<or>
      (\<exists>(x, s) \<in> set (top_trace ops rc waits t0). ip \<in> set (tick_refused ops x s))) \<and>
    ((\<forall>x \<in> set (loop_ticks waits). \<not> edits (i_ch x)) \<longrightarrow> dom (t_blacklist t) \<subseteq> Pair 32 ` blocked_ips (fst (t_client t)))"
proof -
  define R where "R = (\<Union>(x, s) \<in> set (top_trace ops rc waits t0). set (tick_refused ops x s))"
  have run: "synced R exact t" if "exact \<longrightarrow> (\<forall>x \<in> set (loop_ticks waits). \<not> edits (i_ch x))" for exact
    by (rule synced_run[OF assms that]) (auto simp: R_def)
  have "(32, ip) \<in> dom (t_blacklist t)" if "ip \<in> blocked_ips (fst (t_client t))" "ip \<notin> R" for ip
    using run[of False] that unfolding synced_def by blast
  moreover have "ip \<in> R \<longleftrightarrow> (\<exists>(x, s) \<in> set (top_trace ops rc waits t0). ip \<in> set (tick_refused ops x s))" for ip
    by (auto simp: R_def)
  moreover have "dom (t_blacklist t) \<subseteq> Pair 32 ` blocked_ips (fst (t_client t))"
    if "\<forall>x \<in> set (loop_ticks waits). \<not> edits (i_ch x)"
    using run[of True] that unfolding synced_def by blast
  ultimately show ?thesis by blast
qed

theorem auto_block_synced_witness:
  "\<exists>t0 t ended. top_init quiet_ops blocking ''lo'' ''skb'' (True, True, True) quiet_in Map.empty = Some t0 \<and>
     top_loop quiet_ops hand_all [Ready [EpTick flood_in]] t0 = Some (t, ended) \<and> (32, 0x0100000A) \<in> dom (t_blacklist t)"
proof -
  obtain t0 where t0: "top_init quiet_ops blocking ''lo'' ''skb'' (True, True, True) quiet_in Map.empty = Some t0"
    using quiet_init by blast
  obtain t where t: "top_loop quiet_ops hand_all [Ready [EpTick flood_in]] t0 = Some (t, \<not> running (t_app t))"
    "0x0100000A \<in> blocked_ips (fst (t_client t))" "top_trace quiet_ops hand_all [Ready [EpTick flood_in]] t0 = [(flood_in, t0)]"
    by (rule flood_run[OF t0])
  have none: "tick_refused quiet_ops flood_in t0 = []"
    using top_init_fields(1,3)[OF t0] by (intro flood_accepted) (simp_all add: blocking_def global_options0_def)
  have "\<forall>x \<in> set (loop_ticks [Ready [EpTick flood_in]]). \<not> deletes (i_ch x)"
    by (simp add: flood_in_def quiet_in_def deletes_def pressed_def)
  with auto_block_synced[OF ref_ops_law hands_over_all t0 t(1)] t(2,3) none
  have "(32, 0x0100000A) \<in> dom (t_blacklist t)" by auto
  with t0 t(1) show ?thesis by blast
qed

text \<open>
  Property C27. The threat view lists every source the tracker knows exactly once, with its SYN
  and ACK counters, TTL and flag, a source with more SYNs before one with fewer and, at equal numbers, the
  smaller address first. This determines the list, whatever order the hash table is iterated in.
\<close>

theorem threat_ranking:
  assumes "tracker_inv tr" "rows = refresh_threat_snapshot tr"
  shows "distinct (map tr_ip rows) \<and> tr_ip ` set rows = dom (map_of (ip_table tr)) \<and>
    (\<forall>row \<in> set rows. \<exists>s. map_of (ip_table tr) (tr_ip row) = Some s \<and> tr_syn_count row = ip_syn_count s \<and>
       tr_ack_count row = ip_ack_count s \<and> tr_ttl row = last_ttl s \<and> tr_flagged row = is_flagged s) \<and>
    (\<forall>i j. i < j \<and> j < length rows \<longrightarrow> tr_syn_count (rows ! i) > tr_syn_count (rows ! j) \<or>
       tr_syn_count (rows ! i) = tr_syn_count (rows ! j) \<and> tr_ip (rows ! i) < tr_ip (rows ! j))"
proof (intro conjI)
  let ?tbl = "ip_table tr"
  have dist: "distinct (map fst ?tbl)" using assms(1) by (simp add: tracker_inv_def)
  have perm: "mset rows = mset (map threat_of ?tbl)"
    by (simp only: assms(2) refresh_threat_snapshot_def mset_threat_sort get_ip_snapshot_def)
  then have set: "set rows = threat_of ` set ?tbl" using mset_eq_setD by fastforce
  have "mset (map tr_ip rows) = mset (map fst ?tbl)"
    using arg_cong[OF perm, of "image_mset tr_ip"] threat_ips[of ?tbl] by (metis mset_map)
  then show "distinct (map tr_ip rows)" using dist mset_eq_imp_distinct_iff by blast
  show "tr_ip ` set rows = dom (map_of ?tbl)" unfolding set dom_map_of_conv_image_fst image_image by (simp add: threat_of_def)
  show "\<forall>row \<in> set rows. \<exists>s. map_of ?tbl (tr_ip row) = Some s \<and> tr_syn_count row = ip_syn_count s \<and>
       tr_ack_count row = ip_ack_count s \<and> tr_ttl row = last_ttl s \<and> tr_flagged row = is_flagged s"
    using dist by (auto simp: set threat_of_def)
  have "sorted_wrt threat_before rows" unfolding assms(2) by (rule sorted_threats[OF assms(1)])
  then show "\<forall>i j. i < j \<and> j < length rows \<longrightarrow> tr_syn_count (rows ! i) > tr_syn_count (rows ! j) \<or>
       tr_syn_count (rows ! i) = tr_syn_count (rows ! j) \<and> tr_ip (rows ! i) < tr_ip (rows ! j)"
    by (fastforce simp: sorted_wrt_iff_nth_less threat_before_def split: if_split_asm)
qed

definition two_sources :: flow_tracker where
  "two_sources = (FlowTracker 9 1 True 1)\<lparr>ip_table :=
     [(7, ip_stats0\<lparr>ip_syn_count := 3, ip_ack_count := 1\<rparr>), (8, ip_stats0\<lparr>ip_syn_count := 5\<rparr>)]\<rparr>"

theorem threat_ranking_witness:
  "map tr_ip (refresh_threat_snapshot two_sources) = [8, 7] \<and>
   tr_syn_count (refresh_threat_snapshot two_sources ! 0) > tr_syn_count (refresh_threat_snapshot two_sources ! 1)"
proof -
  have inv: "tracker_inv two_sources"
    by (simp add: two_sources_def tracker_inv_def FlowTracker_def ip_stats0_def)
  have rows: "map tr_ip (refresh_threat_snapshot two_sources) = [8, 7]" "length (refresh_threat_snapshot two_sources) = 2"
    by (simp_all add: two_sources_def refresh_threat_snapshot_def get_ip_snapshot_def threat_sort_def threat_of_def
        threat_before_def)
  then have "tr_ip (refresh_threat_snapshot two_sources ! 0) = 8" "tr_ip (refresh_threat_snapshot two_sources ! 1) = 7"
    by (auto simp: map_eq_Cons_conv)
  with threat_ranking[OF inv refl] rows show ?thesis by force
qed

text \<open>
  A refused block is lost: the tracker holds the source as blocked, the blacklist does not, and no later
  tick asks again while the tracker holds it.
\<close>

lemma wanted_unblocked:
  assumes "tracker_inv tr" "ip \<in> set (wanted now snap tr)"
  shows "ip \<notin> blocked_ips tr"
proof -
  define tr' where "tr' = (if snd snap then process_flow_snapshot (fst snap) now tr else tr)"
  have tr': "tracker_inv tr'" "blocked_ips tr' = blocked_ips tr"
    using assms(1) tracker.refresh_blocked[OF assms(1)] by (auto simp: tr'_def)
  have "ip \<in> set (fst (tick_and_get_blocks now tr'))" using assms(2) by (simp add: wanted_def tr'_def)
  then have "ip \<notin> blocked_ips tr'"
    unfolding tick_output_set[OF tr'(1)] by (auto simp: to_be_blocked_def blocked_ips_def entry_of_def)
  then show ?thesis by (simp add: tr'(2))
qed

lemma not_asked_again:
  assumes "lpm_map_law ops" "top_ok t" "top_tick ops x t = Some t'" "\<not> edits (i_ch x)" "\<not> deletes (i_ch x)"
    and "ip \<in> blocked_ips (fst (t_client t))" "(32, ip) \<notin> dom (t_blacklist t)"
  shows "(32, ip) \<notin> dom (t_blacklist t')"
  using assms(3)
proof (rule top_tick_cases)
  fix b snap t1
  let ?in = "handle_input ops (t_rows t) (i_ch x) (i_answer x) (t_app t) (t_blacklist t)"
  let ?t0 = "top_rate b (t\<lparr>t_app := fst ?in, t_blacklist := snd ?in,
      t_drop_count := dropped_count (t_ring t) + (case i_kernel_drops x of Some d \<Rightarrow> d | None \<Rightarrow> 0), t_breakdown := b\<rparr>)"
  let ?bs = "wanted (i_now x) snap (fst (t_client ?t0))"
  assume t1: "t1 = top_blocks ops (i_now x) snap ?t0" and bl: "t_blacklist t' = t_blacklist t1"
  have inv: "tracker_inv (fst (t_client ?t0))" using assms(2) by (simp add: top_ok_def)
  obtain us where r: "dom (t_blacklist t1) =
      (dom (t_blacklist ?t0) \<union> Pair 32 ` (set ?bs - set (refused ops ?bs (t_blacklist ?t0)))) - Pair 32 ` set us"
    by (rule top_blocks_sync[OF assms(1) inv t1 refl])
  have "ip \<notin> set ?bs" using wanted_unblocked[OF inv, of ip "i_now x" snap] assms(6) by auto
  moreover have "t_blacklist ?t0 = t_blacklist t" using handle_input_blacklist(2)[OF assms(5,4)] by simp
  ultimately show ?thesis using r assms(7) unfolding bl by auto
qed

lemma refused_block_lost:
  assumes "lpm_map_law ops" "top_ok t" "top_tick ops x t = Some t'" "ip \<in> set (tick_refused ops x t)"
    and "(32, ip) \<notin> dom (snd (handle_input ops (t_rows t) (i_ch x) (i_answer x) (t_app t) (t_blacklist t)))"
  shows "(32, ip) \<notin> dom (t_blacklist t')"
  using assms(3)
proof (rule top_tick_cases)
  fix b snap t1
  let ?in = "handle_input ops (t_rows t) (i_ch x) (i_answer x) (t_app t) (t_blacklist t)"
  let ?t0 = "top_rate b (t\<lparr>t_app := fst ?in, t_blacklist := snd ?in,
      t_drop_count := dropped_count (t_ring t) + (case i_kernel_drops x of Some d \<Rightarrow> d | None \<Rightarrow> 0), t_breakdown := b\<rparr>)"
  let ?bs = "wanted (i_now x) snap (fst (t_client ?t0))"
  assume t1: "t1 = top_blocks ops (i_now x) snap ?t0" and bl: "t_blacklist t' = t_blacklist t1"
    and snap: "flow_refresh (i_flow_next x) (i_flows x) (i_flow_errno x) = Some snap"
  have inv: "tracker_inv (fst (t_client ?t0))" using assms(2) by (simp add: top_ok_def)
  obtain us where r: "dom (t_blacklist t1) =
      (dom (t_blacklist ?t0) \<union> Pair 32 ` (set ?bs - set (refused ops ?bs (t_blacklist ?t0)))) - Pair 32 ` set us"
    by (rule top_blocks_sync[OF assms(1) inv t1 refl])
  then show ?thesis using assms(4,5) snap unfolding bl by (auto simp: tick_refused_def)
qed

text \<open>The dashboard releases its resources like the run command.\<close>

lemma top_releases:
  assumes "env_ok env" "h_fault h ''unlink'' (owner_pid_path_for_iface n) = None"
    and "cmd_top env ops rc term globals [n] i waits h = Some out"
  shows "mset (o_closed out) = mset (o_opened out) \<and> o_code out \<in> {0, 65, 69, 77, 125} \<and>
    (let left = map_of (h_files (o_host out)) (owner_pid_path_for_iface n) in
     (left = None \<or> left = map_of (h_files h) (owner_pid_path_for_iface n)) \<and> (o_code out = 0 \<longrightarrow> left = None))"
proof -
  let ?start = "session_start env n (g_sample_n globals) (g_syn_window globals) (g_xdp_mode globals) h"
  have "out = (case ?start of Inl o1 \<Rightarrow> o1 | Inr st \<Rightarrow> session_end env n st)"
    using assms(3)
    by (auto simp: cmd_top_def Let_def bind_eq_Some_conv split: sum.splits option.split_asm prod.split_asm bool.split_asm)
  then show ?thesis by (rule session_outcome[OF assms(1,2)])
qed

end
