(* ===== verification/Spec2Isabelle.thy ===== *)
theory Spec2Isabelle
  imports KW_Prelude KW_Text KW_Ipv4 KW_Event KW_Pps KW_Tracker KW_Xdp KW_Log KW_Cli KW_Demo KW_Pin KW_Maps KW_Runtime KW_Detach KW_App KW_Session KW_Top
begin

text \<open>
  K-Watch observes one network interface. An XDP program in the kernel (\<open>bpf/kwatch.bpf.c\<close>) drops
  packets of blacklisted IPv4 sources, counts the others per protocol and per flow, and sends sampled
  events through a ring buffer. A process in user space (\<open>kwatch run\<close>, \<open>kwatch top\<close>) loads and attaches
  it, owns the maps pinned for the interface, prints the events or shows them on a dashboard, finds SYN
  floods in the flow table and, on request, blacklists their sources for a while. Short commands
  (\<open>block\<close>, \<open>unblock\<close>, \<open>list\<close>, \<open>stats\<close>, \<open>detach\<close>) work on the pinned state of the running process,
  and \<open>demo\<close> produces harmless test traffic. This development models all of these parts and proves what
  they promise, each for itself and composed.

  \<^bold>\<open>Theories and sources\<close> (paths under \<open>src/\<close> of the repository, unless they start with \<open>bpf/\<close>)

  \<^item> \<open>KW_Prelude\<close>: integer types, \<open>util/result.h\<close>, bytes of words, \<open>errno\<close> numbers.
  \<^item> \<open>KW_Text\<close>: the library functions on text the program calls, and the locales \<open>codec\<close> and
    \<open>canonical_codec\<close> (what is printed is read back).
  \<^item> \<open>KW_Ipv4\<close>: \<open>util/ipv4.cpp\<close>; prefix matching.
  \<^item> \<open>KW_Event\<close>: \<open>bpf/kwatch_shared.h\<close>, \<open>core/event_formatter.h\<close>; a reader of JSON objects as the
    specification of the JSON lines.
  \<^item> \<open>KW_Pps\<close>: \<open>core/pps_window.cpp\<close>, \<open>tui/widgets/sparkline.cpp\<close>; the locale \<open>sliding_window\<close>.
  \<^item> \<open>KW_Tracker\<close>: \<open>core/flow_tracker.cpp\<close>; the locale \<open>block_tracker\<close>, reachable trackers.
  \<^item> \<open>KW_Xdp\<close>: \<open>bpf/kwatch.bpf.c\<close>; the reference \<open>xdp_spec\<close> that decodes a frame first and acts then,
    and the interleaved counting of several processors.
  \<^item> \<open>KW_Log\<close>: \<open>log/log.cpp\<close>. \<open>KW_Cli\<close>: \<open>cli/parser.cpp\<close>, \<open>cli/main.cpp\<close>.
  \<^item> \<open>KW_Demo\<close>: \<open>cli/commands/demo.cpp\<close>, \<open>demo/\<close>.
  \<^item> \<open>KW_Pin\<close>: \<open>bpf/pin_state.cpp\<close>, \<open>bpf/skeleton.cpp\<close>, on an explicit file system.
  \<^item> \<open>KW_Maps\<close>: \<open>block.cpp\<close>, \<open>unblock.cpp\<close>, \<open>list.cpp\<close>, \<open>stats.cpp\<close> of \<open>cli/commands\<close>,
    \<open>core/flow_snapshot.h\<close>.
  \<^item> \<open>KW_Runtime\<close>: \<open>util/fd.h\<close>, \<open>bpf/attach.cpp\<close>, \<open>bpf/ringbuf.cpp\<close>, \<open>core/tick.cpp\<close>,
    \<open>util/signals.cpp\<close>; the locale \<open>fd_owner\<close>.
  \<^item> \<open>KW_Detach\<close>: \<open>cli/commands/detach.cpp\<close>.
  \<^item> \<open>KW_App\<close>: \<open>tui/app.cpp\<close>.
  \<^item> \<open>KW_Session\<close>: \<open>cli/commands/run.cpp\<close>, and the start, the epoll loop and the end it has in common
    with \<open>top.cpp\<close>.
  \<^item> \<open>KW_Top\<close>: \<open>cli/commands/top.cpp\<close>.

  A class is a record with one definition per member function, and a definition has the name of the
  function it translates, with a prefix where the name is taken (\<open>ufd_move\<close>, \<open>skeleton_pin\<close>,
  \<open>pps_push\<close>). Stages of a long function are definitions of their own (\<open>top_tick\<close>, \<open>xdp_l3\<close>,
  \<open>session_attach\<close>). State is passed explicitly, errors are values of \<open>result\<close> or \<open>option\<close>, machine
  integers keep their width and wrap.

  \<^bold>\<open>Interfaces\<close>

  \<^item> \<open>codec\<close>, \<open>canonical_codec\<close>: instances \<open>ipv4\<close> (addresses), \<open>cidr\<close> (prefixes), \<open>event_record\<close>
    (ring-buffer records).
  \<^item> \<open>sliding_window\<close>, a bounded history: instances \<open>pps\<close> (the ring of rates) and \<open>recent\<close> (the event
    list of the dashboard).
  \<^item> \<open>block_tracker\<close>, what the dashboard relies on when it copies block reports to the kernel: instance
    \<open>tracker\<close>.
  \<^item> \<open>fd_owner\<close>, the ownership of a descriptor under moves and destruction: instances \<open>ufd\<close> and \<open>xdp\<close>.

  \<^bold>\<open>What is shown\<close>

  \<^item> XDP program: no read outside the packet; refinement of \<open>xdp_spec\<close>; a packet is dropped exactly when
    its source lies in a blacklisted prefix; what a drop or a pass leaves in the counters and the ring
    buffer is exact, flows are counted exactly within
    a window; counters are exact under concurrency once they exist (and not before).
  \<^item> Tracker: a snapshot yields the sums of a source and flags it exactly at the threshold; blocks and
    unblocks alternate for each source in every run; a block lasts exactly its time.
  \<^item> Composition (this theory): \<open>block\<close> takes effect in the packet path; a flood counted by the XDP program
    over any number of flows is blocked by one tick of the dashboard and, unless the kernel refuses the
    entry, dropped from then on; the datagrams of the SYN demo
    are seen as SYNs of the intended flow.
  \<^item> Dashboard: the blacklist follows the tracker except for updates the kernel refuses, the state stays well formed, the threat ranking is
    determined, the selected row is the row that is deleted, demos started from it stay on the machine.
  \<^item> Life of a process: exclusive ownership of an interface, cleanup of stale state only, no descriptor
    leaked or closed twice, nothing left behind by \<open>run\<close> on any path, careful signals of \<open>detach\<close>.
  \<^item> Commands and texts: the effects and exit codes of the map commands, round trips of addresses,
    records, JSON lines and command lines, termination and safety of the demos.
  \<^item> Defects, each with a theorem: \<open>stats\<close> starts after the key 0 (\<open>stats_walk\<close>), negative numbers are
    accepted as options (\<open>negative_sample_accepted\<close>), the first counts of a protocol can race
    (\<open>first_count_race\<close>), a block the kernel refuses is not asked for again (\<open>refused_block_lost\<close>,
    \<open>not_asked_again\<close>), the drop counter can be kept out of its table (\<open>drop_counter_starved\<close>), a
    demo rate of zero from the terminal divides by zero (\<open>tui_rate_zero_crash\<close>).

  \<^bold>\<open>Loops\<close>

  Loops over data are structural recursions or folds. \<open>wait_loop\<close> of \<open>detach\<close> has a termination proof. The
  walk over the keys of a map (\<open>key_walk\<close>) and the sending loop of a demo (\<open>send_loop\<close>) end only if the
  kernel and the clock let them: they are partial functions to \<open>option\<close>, and that they return is proved
  from \<open>enumerates\<close> and from a clock that passes the end. The epoll loop runs over the list of the
  results of \<open>epoll_wait\<close>; its flag tells whether the loop has ended or is still waiting. No fuel is used.

  \<^bold>\<open>Parameters\<close>

  Code outside the repository is an argument: the kernel's map operations (\<open>lpm_law\<close>, \<open>hash_law\<close>,
  \<open>lru_law\<close> on the side of the XDP program, \<open>lpm_map_law\<close> and \<open>enumerates\<close> on the side of user space), libbpf (\<open>libbpf_law\<close>, \<open>hands_over\<close>), file system faults, \<open>/proc\<close>, clocks, random numbers and
  the results of system calls (\<open>env_ok\<close>). These predicates state the documented behaviour; every theorem
  that assumes one has a witness with a concrete instance (\<open>ref_kernel\<close>, \<open>ref_ops\<close>, \<open>demo_libbpf\<close> and so
  on).

  \<^bold>\<open>Not modelled\<close>

  ncurses, libbpf and the generated skeleton, beyond the calls made to them; log lines of the commands
  (the log filter itself is modelled); memory allocation; the \<open>pps_window\<close> map, which no code uses; threads
  (a demo thread is recorded when started and run for itself, the mutex of the event list is not needed
  then); changes of the maps by other processes during a walk or a session of the dashboard; tests,
  scripts, build files and documentation. Text is bytes of an ASCII-compatible encoding, and the machine
  is little-endian, as the XDP program assumes.
\<close>

section \<open>From a command to a verdict\<close>

lemma covered_dropped:
  assumes "lpm_law k" "core_data_exists k" "core_data_end_exists k"
    and "decode_frame pkt = IPv4 h" "covers (blacklist st) (p_src h)"
  shows "\<exists>st'. xdp_kwatch_prog k cfg i pkt st = Some (XDP_DROP, st')"
proof -
  obtain act st' where run: "xdp_kwatch_prog k cfg i pkt st = Some (act, st')"
    by (cases "xdp_spec k cfg i pkt st") (simp add: xdp_prog_spec)
  have "act = XDP_DROP" using xdp_verdict[OF assms(1-3) run] assms(4,5) by (auto simp: covers_def)
  with run show ?thesis by blast
qed

lemma full_covers: "(32, a) \<in> dom m \<Longrightarrow> covers m a"
  unfolding covers_def by (intro exI[of _ 32] exI[of _ a]) simp

section \<open>From a flood to a verdict\<close>

text \<open>Counting the packets of a source flow by flow.\<close>

lemma count_by_flow:
  assumes "distinct qs"
  shows "\<forall>(i, h) \<in> set ms. P h \<longrightarrow> flow_key_of h \<in> set qs \<Longrightarrow>
    (\<Sum>q\<leftarrow>qs. length (filter P (map snd (filter (\<lambda>(i, h). flow_key_of h = q) ms)))) = length (filter P (map snd ms))"
proof (induction ms)
  case (Cons x ms)
  obtain i h where x: "x = (i, h)" by (cases x)
  have "(\<Sum>q\<leftarrow>qs. length (filter P (map snd (filter (\<lambda>(i, h). flow_key_of h = q) (x # ms))))) =
      (\<Sum>q\<leftarrow>qs. (if P h \<and> flow_key_of h = q then 1 else 0) +
        length (filter P (map snd (filter (\<lambda>(i, h). flow_key_of h = q) ms))))"
    by (intro arg_cong[of _ _ sum_list] map_cong) (auto simp: x)
  moreover have "(\<Sum>q\<leftarrow>qs. if P h \<and> flow_key_of h = q then 1 else (0 :: nat)) = (if P h then 1 else 0)"
    using Cons.prems x assms by (simp add: sum_list_distinct_conv_sum_set sum.delta)
  ultimately show ?case using Cons by (simp add: x sum_list_addf)
qed simp

text \<open>Only TCP segments carry flags.\<close>

lemma flags_tcp: "bit (l4_flags (l4_info_of h)) n \<Longrightarrow> fk_protocol (flow_key_of h) = 6"
  by (auto simp: l4_info_of_def flow_key_of_def Let_def split: if_split_asm)

lemma entry_from_counts:
  assumes "entry_from ms = Some s" "syn_packets (map snd ms) < 2 ^ 32" "ack_packets (map snd ms) < 2 ^ 32"
  shows "unat (syn_count s) = syn_packets (map snd ms)" "unat (ack_count s) = ack_packets (map snd ms)"
    "first_seen_ns s \<in> ktime_flow ` fst ` set ms" "last_seen_ns s \<in> ktime_flow ` fst ` set ms"
  using assms by (auto simp: entry_from_def unat_of_nat split: if_split_asm)

lemma of_flow_source: "set (of_flow q ps) \<subseteq> set (from_source (fk_src_ip q) ps)"
  by (auto simp: of_flow_def)

lemma from_source_src: "(i, h) \<in> set (from_source ip ps) \<Longrightarrow> fk_src_ip (flow_key_of h) = ip"
  by (auto simp: from_source_def flow_key_of_def Let_def split: frame.split_asm if_split_asm)

text \<open>Packets that are all recent at one moment lie within the window of each other.\<close>

lemma recent_within:
  assumes "\<forall>(i, h) \<in> set ms. ktime_flow i \<le> now \<and> now - ktime_flow i \<le> w"
  shows "within w ms"
  unfolding within_def
proof (intro ballI impI)
  fix x y assume xy: "x \<in> set ms" "y \<in> set ms" "ktime_flow (fst x) > ktime_flow (fst y)"
  have b: "ktime_flow (fst x) \<le> now" "ktime_flow (fst y) \<le> now" "now - ktime_flow (fst y) \<le> w" using assms xy by auto
  with xy(3) show "ktime_flow (fst x) - ktime_flow (fst y) \<le> w"
    by (simp add: word_le_nat_alt word_less_nat_alt unat_sub)
qed

lemma packets_le: "syn_packets (map snd (filter Q ms)) \<le> syn_packets (map snd ms)"
  "ack_packets (map snd (filter Q ms)) \<le> ack_packets (map snd ms)"
  by (induction ms) (simp_all add: syn_packets_def ack_packets_def)

text \<open>The entry of a flow whose packets are all recent is counted if it is a TCP flow, with exact numbers.\<close>

lemma recent_entry:
  assumes "entry_from (of_flow q ps) = Some s" "hs = map snd (from_source (fk_src_ip q) ps)"
    and "syn_packets hs < 2 ^ 32" "ack_packets hs < 2 ^ 32"
    and "\<forall>(i, h) \<in> set (from_source (fk_src_ip q) ps). ktime_flow i \<noteq> 0 \<and> \<not> (now > ktime_flow i \<and> now - ktime_flow i > w)"
  shows "unat (syn_count s) = syn_packets (map snd (of_flow q ps))" "unat (ack_count s) = ack_packets (map snd (of_flow q ps))"
    "entry_skipped w now \<lparr>fe_key = q, fe_stats = s\<rparr> \<longleftrightarrow> fk_protocol q \<noteq> 6"
proof -
  have "syn_packets (map snd (of_flow q ps)) \<le> syn_packets hs" "ack_packets (map snd (of_flow q ps)) \<le> ack_packets hs"
    unfolding of_flow_def assms(2) by (rule packets_le)+
  note c = entry_from_counts[OF assms(1) le_less_trans[OF this(1) assms(3)] le_less_trans[OF this(2) assms(4)]]
  from c(1,2) show "unat (syn_count s) = syn_packets (map snd (of_flow q ps))" "unat (ack_count s) = ack_packets (map snd (of_flow q ps))" .
  have "ktime_flow ` fst ` set (of_flow q ps) \<subseteq> ktime_flow ` fst ` set (from_source (fk_src_ip q) ps)"
    using of_flow_source[of q ps] by auto
  with c(3,4) assms(5) show "entry_skipped w now \<lparr>fe_key = q, fe_stats = s\<rparr> \<longleftrightarrow> fk_protocol q \<noteq> 6"
    by (fastforce simp: entry_skipped_def)
qed

text \<open>
  The flow table \<open>fs\<close> holds for every flow of the source what its packets amount to, and all these packets
  are recent. Then the entries a snapshot of the table counts for the source add up to the numbers of its
  packets with the SYN and the ACK flag.
\<close>

lemma flagged_flows:
  assumes "distinct ks" "set ks = dom fs" "\<And>q. fk_src_ip q = ip \<Longrightarrow> fs q = entry_from (of_flow q ps)"
  shows "(\<Sum>q\<leftarrow>filter (\<lambda>q. fk_protocol q = 6 \<and> fk_src_ip q = ip) ks.
      length (filter (\<lambda>h. bit (l4_flags (l4_info_of h)) n) (map snd (of_flow q ps)))) =
    length (filter (\<lambda>h. bit (l4_flags (l4_info_of h)) n) (map snd (from_source ip ps)))" (is "(\<Sum>q\<leftarrow>?qs. ?f q) = _")
proof -
  have in_qs: "flow_key_of h \<in> set ?qs" if "(i, h) \<in> set (from_source ip ps)" "bit (l4_flags (l4_info_of h)) n" for i h
  proof -
    have src: "fk_src_ip (flow_key_of h) = ip" using that(1) by (rule from_source_src)
    then have "(i, h) \<in> set (of_flow (flow_key_of h) ps)" using that(1) by (simp add: of_flow_def)
    then have "fs (flow_key_of h) \<noteq> None" using assms(3)[OF src] by (auto simp: entry_from_def)
    then show ?thesis using src flags_tcp[OF that(2)] assms(2) by auto
  qed
  have "(\<Sum>q\<leftarrow>?qs. ?f q) = (\<Sum>q\<leftarrow>?qs. length (filter (\<lambda>h. bit (l4_flags (l4_info_of h)) n)
      (map snd (filter (\<lambda>(i, h). flow_key_of h = q) (from_source ip ps)))))"
    by (intro arg_cong[of _ _ sum_list] map_cong) (auto simp: of_flow_def)
  also have "\<dots> = length (filter (\<lambda>h. bit (l4_flags (l4_info_of h)) n) (map snd (from_source ip ps)))"
    using assms(1) in_qs by (intro count_by_flow) auto
  finally show ?thesis .
qed

lemma counted_sums:
  assumes "distinct ks" "set ks = dom fs" "\<And>q. fk_src_ip q = ip \<Longrightarrow> fs q = entry_from (of_flow q ps)"
    and recent: "\<forall>(i, h) \<in> set (from_source ip ps). ktime_flow i \<noteq> 0 \<and> \<not> (now > ktime_flow i \<and> now - ktime_flow i > w)"
    and "hs = map snd (from_source ip ps)" "syn_packets hs < 2 ^ 32" "ack_packets hs < 2 ^ 32"
    and "cs = counted w now (map (\<lambda>q. \<lparr>fe_key = q, fe_stats = the (fs q)\<rparr>) ks) ip"
  shows "(\<Sum>en\<leftarrow>cs. unat (syn_count (fe_stats en))) = syn_packets hs"
    "(\<Sum>en\<leftarrow>cs. unat (ack_count (fe_stats en))) = ack_packets hs"
proof -
  let ?e = "\<lambda>q. \<lparr>fe_key = q, fe_stats = the (fs q)\<rparr>"
  let ?qs = "filter (\<lambda>q. fk_protocol q = 6 \<and> fk_src_ip q = ip) ks"
  have entry: "unat (syn_count (the (fs q))) = syn_packets (map snd (of_flow q ps)) \<and>
      unat (ack_count (the (fs q))) = ack_packets (map snd (of_flow q ps)) \<and> (entry_skipped w now (?e q) \<longleftrightarrow> fk_protocol q \<noteq> 6)"
    if q: "q \<in> set ks" "fk_src_ip q = ip" for q
  proof -
    obtain s where "fs q = Some s" using q(1) assms(2) by auto
    then show ?thesis using recent_entry[of q ps s hs now w] assms(3)[OF q(2)] q(2) recent assms(5-7) by simp
  qed
  have "counted w now (map ?e ks) ip = map ?e (filter (\<lambda>q. \<not> entry_skipped w now (?e q) \<and> fk_src_ip q = ip) ks)"
    by (simp add: counted_def filter_map comp_def)
  also have "filter (\<lambda>q. \<not> entry_skipped w now (?e q) \<and> fk_src_ip q = ip) ks = ?qs"
    using entry by (intro filter_cong) auto
  finally have cs: "cs = map ?e ?qs" using assms(8) by simp
  have "(\<Sum>en\<leftarrow>cs. unat (syn_count (fe_stats en))) = (\<Sum>q\<leftarrow>?qs. syn_packets (map snd (of_flow q ps)))"
    "(\<Sum>en\<leftarrow>cs. unat (ack_count (fe_stats en))) = (\<Sum>q\<leftarrow>?qs. ack_packets (map snd (of_flow q ps)))"
    unfolding cs map_map using entry by (auto intro!: arg_cong[of _ _ sum_list] map_cong)
  moreover have "(\<Sum>q\<leftarrow>?qs. syn_packets (map snd (of_flow q ps))) = syn_packets hs"
    "(\<Sum>q\<leftarrow>?qs. ack_packets (map snd (of_flow q ps))) = ack_packets hs"
    unfolding syn_packets_def ack_packets_def assms(5) by (rule flagged_flows[OF assms(1-3)]; assumption)+
  ultimately show "(\<Sum>en\<leftarrow>cs. unat (syn_count (fe_stats en))) = syn_packets hs"
    "(\<Sum>en\<leftarrow>cs. unat (ack_count (fe_stats en))) = ack_packets hs" by (simp_all only:)
qed

text \<open>A source flagged by a snapshot and not blocked before is blocked by the same round.\<close>

lemma round_blocks:
  assumes "lpm_map_law ops" "tracker_inv (fst (t_client t))" "auto_block_enabled (fst (t_client t))"
    and "map_of (ip_table (process_flow_snapshot es now (fst (t_client t)))) ip = Some s" "is_flagged s"
    and "ip \<notin> blocked_ips (fst (t_client t))" "now < now + auto_block_ttl_ns (fst (t_client t))"
    and "t' = top_blocks ops now (es, True) t"
  shows "ip \<in> blocked_ips (fst (t_client t'))"
    "ip \<in> set (refused ops (wanted now (es, True) (fst (t_client t))) (t_blacklist t)) \<or> (32, ip) \<in> dom (t_blacklist t')"
proof -
  let ?tr = "process_flow_snapshot es now (fst (t_client t))"
  obtain bs tr1 where b: "tick_and_get_blocks now ?tr = (bs, tr1)" by (rule prod.exhaust)
  obtain us tr2 where u: "get_expired_blocks now tr1 = (us, tr2)" by (rule prod.exhaust)
  have inv: "tracker_inv ?tr" "tracker_inv tr1"
    using assms(2) tracker_inv_tick[of ?tr now] b by auto
  have cfg: "auto_block_enabled ?tr" "auto_block_ttl_ns tr1 = auto_block_ttl_ns (fst (t_client t))"
    using tracker_step_config(3,4)[of "fst (t_client t)" "OpSnapshot es now"]
      tracker_step_config(4)[of ?tr "OpTick now"] assms(3) b by simp_all
  have "\<not> is_blocked s"
    using assms(4,6) tracker.refresh_blocked[OF assms(2), of es now] by (auto simp: blocked_ips_def)
  then have tb: "to_be_blocked ?tr s" using assms(5) cfg(1) by (simp add: to_be_blocked_def)
  then have bs: "ip \<in> set bs"
    using tick_output_set[OF inv(1), of now] b assms(4) by (auto simp: entry_of_def)
  have "entry_of tr1 ip = Some (s\<lparr>is_blocked := True, block_start_ns := now\<rparr>)"
    using entry_tick[OF inv(1), of now ip] b assms(4) tb by (simp add: entry_of_def)
  then have us: "ip \<notin> set us"
    using expire_output_set[OF inv(2), of now] u cfg(2) assms(7) by (auto simp: block_expired_def)
  have t': "fst (t_client t') = tr2" "t_blacklist t' = apply_blocks ops bs us (t_blacklist t)"
    using b u by (simp_all add: assms(8) top_blocks_def Let_def)
  show "ip \<in> blocked_ips (fst (t_client t'))" using tracker.round_blocked(2)[OF inv(1) b u] bs us by (simp add: t')
  have "distinct bs" "bs = wanted now (es, True) (fst (t_client t))"
    using tick_output_distinct[OF inv(1), of now] b by (simp_all add: wanted_def)
  with bs us show "ip \<in> set (refused ops (wanted now (es, True) (fst (t_client t))) (t_blacklist t)) \<or> (32, ip) \<in> dom (t_blacklist t')"
    unfolding t' dom_apply_blocks[OF assms(1) \<open>distinct bs\<close>] by auto
qed

section \<open>Properties across components\<close>

text \<open>
  Property C4. \<open>kwatch block\<close> takes effect in the kernel: after it has exited with 0, the
  XDP program drops every acceptable IPv4 frame whose source lies in a prefix named on the command line.
\<close>

theorem block_then_drop:
  assumes "lpm_map_law ops" "cmd_block ops proc h args m = (0, m')" "s \<in> set (drop 1 args)" "names_addr s (p_src hdr)"
    and "lpm_law k" "core_data_exists k" "core_data_end_exists k" "decode_frame pkt = IPv4 hdr" "blacklist st = m'"
  shows "\<exists>st'. xdp_kwatch_prog k cfg i pkt st = Some (XDP_DROP, st')"
proof -
  have "covers m' (p_src hdr)" using cmd_block_covers[OF assms(1,2)] assms(3,4) by blast
  then show ?thesis using covered_dropped[OF assms(5-8)] assms(9) by simp
qed

theorem block_then_drop_witness:
  "\<exists>m' st'. cmd_block (ref_ops (\<lambda>_ _. None)) demo_proc owned_host [''lo'', cidr_text (0x0000000A, 8)] Map.empty = (0, m') \<and>
     xdp_kwatch_prog ref_kernel (kwatch_make_runtime_config 100 10) ref_inputs syn_frame (ref_state m') = Some (XDP_DROP, st')"
proof -
  let ?ops = "ref_ops (\<lambda>_ _. None)" and ?s = "cidr_text (0x0000000A, 8)"
  have p: "parse_cidr ?s = Ok (0x0000000A, 8)" by (rule parse_cidr_text) simp
  have "fst (lpm_update ?ops (8, 0x0000000A) 1 Map.empty) = 0" by (rule ref_update_room) (simp_all add: blacklist_max_def)
  then obtain m' where run: "cmd_block ?ops demo_proc owned_host [''lo'', ?s] Map.empty = (0, m')"
    using owned_opens p by (simp add: cmd_block_def get_blacklist_fd_def case_prod_beta cidr_key_def)
  have "names_addr ?s (p_src syn_packet)"
    unfolding names_addr_def p by (simp add: lpm_match_def net_bit_def byte_at_def upt_rec syn_packet_def)
  then obtain st' where "xdp_kwatch_prog ref_kernel (kwatch_make_runtime_config 100 10) ref_inputs syn_frame (ref_state m') = Some (XDP_DROP, st')"
    using block_then_drop[OF ref_ops_law run _ _ ref_laws(1,4,5) decode_syn_frame, where s = ?s and st = "ref_state m'"]
    by (auto simp: ref_state_def)
  with run show ?thesis by blast
qed

text \<open>
  Property C1. A SYN flood is stopped end to end. Let the XDP program process any
  sequence of frames, among them the packets of a source that is not blacklisted and has no flow in the
  table yet, spread over any number of flows and mixed with other traffic; let these packets be recent at
  the next tick of the dashboard, none of their flows be evicted meanwhile, and their SYNs exceed their
  ACKs by the threshold. When the tick takes its snapshot of the flow table with automatic blocking on,
  the tracker blocks the source, and unless the kernel refuses the blacklist entry, the source is in the
  blacklist after the tick and the XDP program drops every further IPv4 frame from it.
\<close>

theorem flood_is_dropped:
  assumes kernel: "lpm_law k" "core_data_exists k" "core_data_end_exists k" "lru_law (flow_state_noexist k)"
    and user: "lpm_map_law ops" "top_ok t" "top_tick ops x t = Some t'"
    and traffic: "xdp_run k cfg ps st = Some st1" "lpm_lookup k (blacklist st) (32, ip) = None"
      "\<forall>q. fk_src_ip q = ip \<longrightarrow> flow_state st q = None" "flows_kept k cfg ip ps st"
    and table: "i_flows x = flow_state st1" "enumerates (i_flow_next x) ks" "set ks = dom (flow_state st1)"
      "i_flow_errno x = 0 \<or> i_flow_errno x = ENOENT"
    and times: "\<forall>(i, h) \<in> set (from_source ip ps). ktime_flow i \<noteq> 0 \<and> ktime_flow i \<le> i_now x \<and>
        i_now x - ktime_flow i \<le> syn_window_ns (fst (t_client t)) \<and> i_now x - ktime_flow i \<le> cfg_syn_window_ns cfg"
      "i_now x < i_now x + auto_block_ttl_ns (fst (t_client t))"
    and flood: "hs = map snd (from_source ip ps)" "0 < syn_packets hs" "syn_packets hs < 2 ^ 32" "ack_packets hs < 2 ^ 32"
      "unat (syn_threshold (fst (t_client t))) \<le> syn_packets hs - ack_packets hs"
      "auto_block_enabled (fst (t_client t))" "ip \<notin> blocked_ips (fst (t_client t))"
    and later: "decode_frame pkt = IPv4 hdr" "p_src hdr = ip" "blacklist st2 = t_blacklist t'"
  shows "ip \<in> blocked_ips (fst (t_client t')) \<and>
    (ip \<in> set (tick_refused ops x t) \<or>
     (32, ip) \<in> dom (t_blacklist t') \<and> (\<exists>st3. xdp_kwatch_prog k cfg i pkt st2 = Some (XDP_DROP, st3)))"
proof -
  let ?tr = "fst (t_client t)" and ?now = "i_now x"
  define es where "es = map (\<lambda>q. \<lparr>fe_key = q, fe_stats = the (flow_state st1 q)\<rparr>) ks"
  define cs where "cs = counted (syn_window_ns ?tr) ?now es ip"
  have "within (cfg_syn_window_ns cfg) (from_source ip ps)" by (rule recent_within[of _ ?now]) (use times(1) in auto)
  then have flows: "flow_state st1 q = entry_from (of_flow q ps)" if "fk_src_ip q = ip" for q
    using run_flow_mixed[OF kernel(2-4) _ _ traffic(1), of q] traffic(2-4) that
      within_subset[OF of_flow_source[of q ps]] by simp
  have sums: "(\<Sum>en\<leftarrow>cs. unat (syn_count (fe_stats en))) = syn_packets hs"
    "(\<Sum>en\<leftarrow>cs. unat (ack_count (fe_stats en))) = ack_packets hs"
    unfolding cs_def es_def
    by (rule counted_sums[OF _ table(3) flows _ flood(1,3,4) refl]; use table(2) times(1) in \<open>auto simp: enumerates_def not_less\<close>)+
  then have "cs \<noteq> []" using flood(2) by auto
  then obtain e where e: "map_of (ip_table (process_flow_snapshot es ?now ?tr)) ip = Some e" "is_flagged e"
    using snapshot_entry[OF cs_def _ refl _ refl] sums flood(3-5) by auto
  have snap: "flow_refresh (i_flow_next x) (i_flows x) (i_flow_errno x) = Some (es, True)"
    using flow_refresh_map[OF table(2,3,4)] table(1) by (simp add: es_def)
  have "ip \<in> blocked_ips (fst (t_client t')) \<and> (ip \<in> set (tick_refused ops x t) \<or> (32, ip) \<in> dom (t_blacklist t'))"
    using user(3)
  proof (rule top_tick_cases)
    fix b sn t1
    let ?in = "handle_input ops (t_rows t) (i_ch x) (i_answer x) (t_app t) (t_blacklist t)"
    let ?t0 = "top_rate b (t\<lparr>t_app := fst ?in, t_blacklist := snd ?in,
        t_drop_count := dropped_count (t_ring t) + (case i_kernel_drops x of Some d \<Rightarrow> d | None \<Rightarrow> 0), t_breakdown := b\<rparr>)"
    assume t1: "t1 = top_blocks ops ?now sn ?t0" "t_client t' = t_client t1" "t_blacklist t' = t_blacklist t1"
      "flow_refresh (i_flow_next x) (i_flows x) (i_flow_errno x) = Some sn"
    then have "t1 = top_blocks ops ?now (es, True) ?t0" using snap by simp
    from round_blocks[OF user(1) _ _ _ e(2) _ _ this, of ip] user(2) e(1) flood(6,7) times(2) show ?thesis
      by (simp add: t1(2,3) tick_refused_def snap top_ok_def)
  qed
  then show ?thesis using covered_dropped[OF kernel(1-3) later(1)] full_covers later(2,3) by metis
qed

text \<open>Two SYNs from one source in two flows, a threshold of two, and the tick after them.\<close>

definition touchy :: global_options where
  "touchy = blocking\<lparr>g_syn_threshold := 2\<rparr>"

definition syn_packet2 :: ipv4_packet where
  "syn_packet2 = syn_packet\<lparr>p_l4 := [0x12, 0x35, 0x00, 0x50, 0, 0, 0, 0, 0, 0, 0, 0, 0x50, 0x02, 0, 0, 0, 0, 0, 0]\<rparr>"

definition syn_frame2 :: "u8 list" where
  "syn_frame2 = frame_bytes (replicate 12 0) None (ipv4_bytes (replicate 7 0) [0, 0] [] syn_packet2)"

abbreviation ref_cfg :: kwatch_runtime_config where
  "ref_cfg \<equiv> kwatch_make_runtime_config 100 10"

abbreviation two_syns :: "(bpf_inputs \<times> u8 list) list" where
  "two_syns \<equiv> [(ref_inputs, syn_frame), (ref_inputs, syn_frame2)]"

definition one_syn :: kwatch_flow_stats where
  "one_syn = \<lparr>syn_count = 1, ack_count = 0, first_seen_ns = 5, last_seen_ns = 5\<rparr>"

definition two_next :: "'k \<Rightarrow> 'k \<Rightarrow> 'k option \<Rightarrow> 'k option" where
  "two_next a b cur = (if cur = Some a then Some b else if cur = Some b then None else Some a)"

lemma enumerates_two: "a \<noteq> b \<Longrightarrow> enumerates (two_next a b) [a, b]"
  by (auto simp: enumerates_def two_next_def less_Suc_eq)

lemma decode_syn_frame2: "decode_frame syn_frame2 = IPv4 syn_packet2"
  unfolding syn_frame2_def by (rule decode_frame_bytes) (simp_all add: header_ok_def)

lemma syn_keys:
  "flow_key_of syn_packet = \<lparr>fk_src_ip = 0x0100000A, fk_dst_ip = 0x0200000A, fk_sport = 0x1234, fk_dport = 80, fk_protocol = 6\<rparr>"
  "flow_key_of syn_packet2 = \<lparr>fk_src_ip = 0x0100000A, fk_dst_ip = 0x0200000A, fk_sport = 0x1235, fk_dport = 80, fk_protocol = 6\<rparr>"
  "l4_flags (l4_info_of syn_packet) = 2" "l4_flags (l4_info_of syn_packet2) = 2" "p_src syn_packet = 0x0100000A" "p_src syn_packet2 = 0x0100000A"
  by (simp_all add: flow_key_of_def l4_info_of_def syn_packet_def syn_packet2_def be16_def le16_def Let_def)

lemma syn_step:
  assumes "decode_frame pkt = IPv4 h" "blacklist st = Map.empty" "flow_state st (flow_key_of h) = None" "l4_flags (l4_info_of h) = 2"
  obtains st' where "xdp_kwatch_prog ref_kernel ref_cfg ref_inputs pkt st = Some (XDP_PASS, st')" "blacklist st' = Map.empty"
    "flow_state st' = (flow_state st)(flow_key_of h \<mapsto> one_syn)"
proof -
  have "lpm_lookup ref_kernel (blacklist st) (32, p_src h) = None" by (simp add: assms(2) ref_kernel_def)
  from prog_flow_step[OF ref_laws(4,5) assms(1) this, of ref_cfg ref_inputs] obtain st' where
    "xdp_kwatch_prog ref_kernel ref_cfg ref_inputs pkt st = Some (XDP_PASS, st')" "blacklist st' = blacklist st"
    "flow_state st' = flow_state (fst (track_flow ref_kernel ref_cfg (ktime_flow ref_inputs) (flow_key_of h) (l4_flags (l4_info_of h)) st))"
    by auto
  then show ?thesis
    using that[of st'] assms(2-4)
    by (simp add: track_flow_def ref_kernel_def new_flow_stats_bits ref_inputs_def one_syn_def bit_numeral_rec)
qed

lemma two_run:
  obtains st0 st1 where "xdp_run ref_kernel ref_cfg [(ref_inputs, syn_frame)] (ref_state Map.empty) = Some st0"
    "xdp_run ref_kernel ref_cfg two_syns (ref_state Map.empty) = Some st1"
    "flow_state st0 = [flow_key_of syn_packet \<mapsto> one_syn]"
    "flow_state st1 = [flow_key_of syn_packet \<mapsto> one_syn, flow_key_of syn_packet2 \<mapsto> one_syn]"
proof -
  obtain st0 where st0: "xdp_kwatch_prog ref_kernel ref_cfg ref_inputs syn_frame (ref_state Map.empty) = Some (XDP_PASS, st0)"
    "blacklist st0 = Map.empty" "flow_state st0 = (flow_state (ref_state Map.empty))(flow_key_of syn_packet \<mapsto> one_syn)"
    by (rule syn_step[OF decode_syn_frame, of "ref_state Map.empty"]) (simp_all add: ref_state_def syn_keys(3))
  have f0: "flow_state st0 = [flow_key_of syn_packet \<mapsto> one_syn]" using st0(3) by (simp add: ref_state_def)
  obtain st1 where "xdp_kwatch_prog ref_kernel ref_cfg ref_inputs syn_frame2 st0 = Some (XDP_PASS, st1)"
    "flow_state st1 = (flow_state st0)(flow_key_of syn_packet2 \<mapsto> one_syn)"
    by (rule syn_step[OF decode_syn_frame2 st0(2)]) (simp_all add: f0 syn_keys)
  with st0(1) f0 show ?thesis by (intro that) simp_all
qed

lemma two_source:
  "from_source 0x0100000A two_syns = [(ref_inputs, syn_packet), (ref_inputs, syn_packet2)]"
  "syn_packets [syn_packet, syn_packet2] = 2" "ack_packets [syn_packet, syn_packet2] = 0"
  by (simp_all add: from_source_def decode_syn_frame decode_syn_frame2 syn_keys syn_packets_def ack_packets_def bit_numeral_rec)

lemma two_kept: "flows_kept ref_kernel ref_cfg 0x0100000A two_syns (ref_state Map.empty)"
proof -
  obtain st0 st1 where run: "xdp_run ref_kernel ref_cfg [(ref_inputs, syn_frame)] (ref_state Map.empty) = Some st0"
    "xdp_run ref_kernel ref_cfg two_syns (ref_state Map.empty) = Some st1"
    "flow_state st0 = [flow_key_of syn_packet \<mapsto> one_syn]"
    "flow_state st1 = [flow_key_of syn_packet \<mapsto> one_syn, flow_key_of syn_packet2 \<mapsto> one_syn]" by (rule two_run)
  have src: "from_source 0x0100000A [(ref_inputs, syn_frame)] = [(ref_inputs, syn_packet)]"
    by (simp add: from_source_def decode_syn_frame syn_keys)
  show ?thesis
    unfolding flows_kept_def
  proof (intro allI impI)
    fix n assume "n \<le> length two_syns"
    then have "n = 0 \<or> n = 1 \<or> n = 2" by auto
    then consider "take n two_syns = []" | "take n two_syns = [(ref_inputs, syn_frame)]" | "take n two_syns = two_syns"
      by auto
    then show "case xdp_run ref_kernel ref_cfg (take n two_syns) (ref_state Map.empty) of None \<Rightarrow> True
      | Some st' \<Rightarrow> list_all (\<lambda>(i, h). flow_state st' (flow_key_of h) \<noteq> None) (from_source 0x0100000A (take n two_syns))"
      by cases (simp add: from_source_def, simp_all only: run(1,2) src two_source(1) option.case, simp_all add: run(3,4))
  qed
qed

lemma two_wanted:
  "wanted 5 (map (\<lambda>q. \<lparr>fe_key = q, fe_stats = one_syn\<rparr>) [flow_key_of syn_packet, flow_key_of syn_packet2], True)
     (FlowTracker 2 10 True 300) = [0x0100000A]"
  by (simp add: wanted_def FlowTracker_def process_flow_snapshot_def aggregate_step_def entry_skipped_def
      syn_keys one_syn_def ns_per_s_def next_generation_def apply_aggregate_def merge_aggregate_def stats_at_def
      ip_stats0_def unmatched_syns_def reset_stale_def tick_and_get_blocks_def to_be_blocked_def evict_idle_def
      kMaxFlows_def kMaxIpStats_def Let_def)

theorem flood_is_dropped_witness:
  "\<exists>x t t' st3. top_init quiet_ops touchy ''lo'' ''skb'' (True, True, True) quiet_in Map.empty = Some t \<and>
     map_option flow_state (xdp_run ref_kernel ref_cfg two_syns (ref_state Map.empty)) = Some (i_flows x) \<and>
     top_tick quiet_ops x t = Some t' \<and>
     xdp_kwatch_prog ref_kernel ref_cfg ref_inputs syn_frame (ref_state (t_blacklist t')) = Some (XDP_DROP, st3)"
proof -
  let ?q1 = "flow_key_of syn_packet" and ?q2 = "flow_key_of syn_packet2"
  obtain st0 st1 where run: "xdp_run ref_kernel ref_cfg two_syns (ref_state Map.empty) = Some st1"
    "flow_state st1 = [?q1 \<mapsto> one_syn, ?q2 \<mapsto> one_syn]" by (rule two_run)
  let ?x = "quiet_in\<lparr>i_flow_next := two_next ?q1 ?q2, i_flows := flow_state st1\<rparr>"
  have enum: "enumerates (two_next ?q1 ?q2) [?q1, ?q2]" by (rule enumerates_two) (simp add: syn_keys)
  have dom: "set [?q1, ?q2] = dom (flow_state st1)" by (simp add: run(2) insert_commute)
  obtain t where t: "top_init quiet_ops touchy ''lo'' ''skb'' (True, True, True) quiet_in Map.empty = Some t"
    by (auto simp: top_init_def refresh_protocol_breakdown_def refresh_firewall_snapshot_def quiet_in_def empty_walk Let_def
        ref_ops_def)
  have snap: "flow_refresh (i_flow_next ?x) (i_flows ?x) (i_flow_errno ?x) =
      Some (map (\<lambda>q. \<lparr>fe_key = q, fe_stats = one_syn\<rparr>) [?q1, ?q2], True)"
    using flow_refresh_map[OF enum dom, of 2] by (simp add: quiet_in_def ENOENT_def run(2) syn_keys)
  then obtain t' where t': "top_tick quiet_ops ?x t = Some t'"
    unfolding top_tick_def Let_def
    by (simp add: case_prod_beta refresh_firewall_snapshot_def refresh_protocol_breakdown_def quiet_in_def ref_ops_def empty_walk)
  have tr: "fst (t_client t) = FlowTracker 2 10 True 300" "t_blacklist t = Map.empty"
    using top_init_fields(1,3)[OF t] by (simp_all add: touchy_def blocking_def global_options0_def)
  have "snd (handle_input quiet_ops (t_rows t) (i_ch ?x) (i_answer ?x) (t_app t) (t_blacklist t)) = Map.empty"
    unfolding tr(2) by (rule handle_input_blacklist(2)) (simp_all add: quiet_in_def deletes_def edits_def pressed_def)
  moreover have "refused quiet_ops [0x0100000A] Map.empty = []" by (rule refused_room) (simp_all add: blacklist_max_def)
  moreover have "i_now ?x = 5" by (simp add: quiet_in_def)
  moreover have kt: "ktime_flow ref_inputs = 5" by (simp add: ref_inputs_def)
  ultimately have acc: "tick_refused quiet_ops ?x t = []"
    unfolding tick_refused_def snap option.case tr(1) by (simp only: two_wanted)
  have "0x0100000A \<in> blocked_ips (fst (t_client t')) \<and> (0x0100000A \<in> set (tick_refused quiet_ops ?x t) \<or>
      (32, 0x0100000A) \<in> dom (t_blacklist t') \<and>
      (\<exists>st3. xdp_kwatch_prog ref_kernel ref_cfg ref_inputs syn_frame (ref_state (t_blacklist t')) = Some (XDP_DROP, st3)))"
    by (rule flood_is_dropped[OF ref_laws(1,4,5,3) ref_ops_law top_init_fields(4)[OF t] t' run(1) _ _ two_kept _ _ dom _ _ _ refl
          _ _ _ _ _ _ decode_syn_frame syn_keys(5)])
      (use enum kt in \<open>simp_all add: tr two_source quiet_in_def ENOENT_def FlowTracker_def ns_per_s_def blocked_ips_def
        ref_state_def ref_kernel_def\<close>)
  with t t' run(1) acc show ?thesis by (intro exI[of _ ?x] exI[of _ t] exI[of _ t']) auto
qed

text \<open>
  Property C31. The SYN flood demo is seen as a SYN flood: in whatever frame a datagram of
  \<open>run_syn_flood\<close> is delivered, the XDP program decodes it as a TCP segment from 127.0.0.1 to the target
  with the ports the generator chose, with the SYN flag and without the ACK flag.
\<close>

theorem syn_demo_seen:
  assumes "length macs = 12" "tag_ok tag"
  shows "\<exists>h. decode_frame (frame_bytes macs tag (syn_datagram daddr sp dp)) = IPv4 h \<and>
    flow_key_of h = \<lparr>fk_src_ip = le32 127 0 0 1, fk_dst_ip = daddr, fk_sport = sp, fk_dport = dp, fk_protocol = 6\<rparr> \<and>
    syn_packets [h] = 1 \<and> ack_packets [h] = 0"
proof -
  let ?tcp = "syn_tcp_header (csum (pseudo_header daddr @ syn_tcp_header 0 sp dp)) sp dp"
  let ?h = "\<lparr>p_src = le32 127 0 0 1, p_dst = daddr, p_proto = 6, p_ttl = 255, p_l4 = ?tcp\<rparr>"
  let ?mid = "[0] @ bytes16 (ntohs 40) @ bytes16 (ntohs 54321) @ [0, 0]"
  let ?cks = "bytes16 (csum (syn_ip_header 0 daddr))"
  have "syn_datagram daddr sp dp = ipv4_bytes ?mid ?cks [] ?h"
    by (simp add: syn_datagram_def syn_ip_header_def[of "csum _"] ipv4_bytes_def bytes32_def)
  moreover have "header_ok ?mid ?cks []" by (simp add: header_ok_def bytes16_def)
  ultimately have dec: "decode_frame (frame_bytes macs tag (syn_datagram daddr sp dp)) = IPv4 ?h"
    using decode_frame_bytes[OF assms] by simp
  have "l4_info_of ?h = \<lparr>l4_sport = sp, l4_dport = dp, l4_flags = 2, l4_type = 0, l4_code = 0\<rparr>"
    by (simp add: l4_info_of_def syn_tcp_header_def bytes16_def be16_def ntohs_def eval_nat_numeral)
  then have "flow_key_of ?h = \<lparr>fk_src_ip = le32 127 0 0 1, fk_dst_ip = daddr, fk_sport = sp, fk_dport = dp, fk_protocol = 6\<rparr>"
    "syn_packets [?h] = 1" "ack_packets [?h] = 0"
    by (simp_all add: flow_key_of_def syn_packets_def ack_packets_def bit_numeral_rec(1))
  with dec show ?thesis by blast
qed

theorem syn_demo_seen_witness:
  "\<exists>h. decode_frame (frame_bytes (replicate 12 0) None (syn_datagram (le32 127 0 0 1) 1024 80)) = IPv4 h \<and> syn_packets [h] = 1"
  using syn_demo_seen[of "replicate 12 0" None "le32 127 0 0 1" 1024 80] by auto

end
